theory Spec2Isabelle
  imports Complex_Main
begin

section \<open>The echo processor of scripted-lab (echo.py)\<close>

text \<open>
  The script is four statements:
  \<^verbatim>\<open>
  def main():
      data = json.load(sys.stdin)
      data["echoed_by"] = "python"
      data["ts"] = int(time.time())
      json.dump(data, sys.stdout)
  \<close>
  Its behaviour is that of the library calls it makes, so the embedding has three layers:
  the Python values and the two built-in operations the script applies to them (item
  assignment and \<open>int\<close> of a float), the \<open>json\<close> module with its default settings
  (decoder and encoder, following \<open>json/decoder.py\<close>, \<open>json/scanner.py\<close> and
  \<open>json/encoder.py\<close> of CPython), and the process: standard input, standard output, the
  wall clock and the exit status.

  The library is modelled as CPython runs it: the scanner and the string scanner are the
  C ones, which accept ASCII digits and four hexadecimal digits after \<open>\u\<close> only, where
  the Python fallbacks of \<open>json/scanner.py\<close> and \<open>json/decoder.py\<close> are more liberal.

  Left outside the model: IEEE arithmetic (the conversion of a number literal to a float
  and the text \<open>float.__repr__\<close> prints are parameters of the model, record \<open>platform\<close>,
  as they are parameters of the decoder, \<open>parse_float\<close>, and of the encoder, \<open>_repr\<close>, in
  the library); memory; the decoding of the bytes of standard input into text; and the
  DOC block above the imports (lines 1 to 12 of the file, from \<open>/*---DOC---\<close> to
  \<open>---END---*/\<close>), which is not Python and which \<open>main\<close> never reads: the model is of
  the statements that follow it.

  The decoder, the encoder and \<open>run\<close> are those of an interpreter without limits:
  integers are unbounded and nesting is of any depth. The two bounds that CPython
  enforces by raising an exception, on the number of digits of an integer and on the
  depth of recursion, are a layer of their own on top of \<open>run\<close> (subsection
  \<open>The limits of the interpreter\<close>), which gives the exit status of a run under them.
\<close>

subsection \<open>Text\<close>

text \<open>
  A Python \<open>str\<close> is a sequence of code points. A \<open>char\<close> of HOL has eight bits, and the
  decoder produces code points up to \<open>0x10FFFF\<close> from escapes, so a code point is a \<open>nat\<close>.
  \<open>ascii\<close> reads a HOL string literal as such a text.
\<close>

type_synonym pystr = "nat list"

definition ascii :: "string \<Rightarrow> pystr" where
  "ascii cs = map of_char cs"

abbreviation (input) ch :: "char \<Rightarrow> nat" where
  "ch c \<equiv> of_char c"

abbreviation (input) QUOTE :: nat where
  "QUOTE \<equiv> 0x22"

abbreviation (input) REVERSE_SOLIDUS :: nat where
  "REVERSE_SOLIDUS \<equiv> 0x5C"

subsection \<open>Python values\<close>

text \<open>
  The values \<open>json.load\<close> can return. A float is one of the three special values or a
  finite double, given by sign, significand and binary exponent; the model never computes
  with it. A \<open>dict\<close> keeps its keys in insertion order, so it is an association list; the
  decoder builds it with \<open>dict\<close>, which leaves each key once.
\<close>

datatype pyfloat = NaN | PosInf | NegInf | Finite bool nat int

datatype pyval =
    PNone
  | PBool bool
  | PInt int
  | PFloat pyfloat
  | PStr pystr
  | PList "pyval list"
  | PDict "(pystr \<times> pyval) list"

datatype exn = JSONDecodeError | TypeError

text \<open>\<open>d[k] = v\<close> on a dict: an existing key keeps its place and takes the new value, a new
  key goes to the end.\<close>

fun dict_setitem :: "(pystr \<times> pyval) list \<Rightarrow> pystr \<Rightarrow> pyval \<Rightarrow> (pystr \<times> pyval) list" where
  "dict_setitem [] k v = [(k, v)]"
| "dict_setitem ((k', v') # d) k v =
     (if k' = k then (k', v) # d else (k', v') # dict_setitem d k v)"

text \<open>\<open>dict(pairs)\<close>: the pairs are stored one after the other.\<close>

definition dict :: "(pystr \<times> pyval) list \<Rightarrow> (pystr \<times> pyval) list" where
  "dict pairs = foldl (\<lambda>d (k, v). dict_setitem d k v) [] pairs"

text \<open>
  \<open>data[k] = v\<close> for any value: only a dict supports it here. A list takes integer
  indices; the other values have no item assignment. Both raise \<open>TypeError\<close>.
\<close>

fun setitem :: "pyval \<Rightarrow> pystr \<Rightarrow> pyval \<Rightarrow> exn + pyval" where
  "setitem (PDict d) k v = Inr (PDict (dict_setitem d k v))"
| "setitem _ k v = Inl TypeError"

text \<open>\<open>int(x)\<close> of a finite float of value \<open>x\<close> rounds towards zero.\<close>

definition int_of_float :: "real \<Rightarrow> int" where
  "int_of_float x = (if 0 \<le> x then \<lfloor>x\<rfloor> else \<lceil>x\<rceil>)"

text \<open>The float primitives of the platform: \<open>float(s)\<close> of a number literal and
  \<open>float.__repr__\<close>.\<close>

record platform =
  py_float :: "pystr \<Rightarrow> pyfloat"
  py_float_repr :: "pyfloat \<Rightarrow> pystr"

subsection \<open>The decoder: \<open>json.load\<close>\<close>

text \<open>
  The library scans a string by index; the model scans the suffix that starts at the
  index, and returns the rest where the library returns the end index. \<open>None\<close> is
  \<open>JSONDecodeError\<close> (inside the scanner also \<open>StopIteration\<close>, which \<open>raw_decode\<close> and
  the container parsers turn into \<open>JSONDecodeError\<close>).
\<close>

definition is_ws :: "nat \<Rightarrow> bool" where
  "is_ws c \<longleftrightarrow> c = ch CHR '' '' \<or> c = 9 \<or> c = 10 \<or> c = 13"

definition skip_ws :: "pystr \<Rightarrow> pystr" where
  "skip_ws s = dropWhile is_ws s"

definition hexval :: "nat \<Rightarrow> nat option" where
  "hexval c =
     (if ch CHR ''0'' \<le> c \<and> c \<le> ch CHR ''9'' then Some (c - ch CHR ''0'')
      else if ch CHR ''a'' \<le> c \<and> c \<le> ch CHR ''f'' then Some (c - ch CHR ''a'' + 10)
      else if ch CHR ''A'' \<le> c \<and> c \<le> ch CHR ''F'' then Some (c - ch CHR ''A'' + 10)
      else None)"

text \<open>\<open>_decode_uXXXX\<close> on the slice of four characters after \<open>\u\<close>: four hexadecimal
  digits, as the scanner CPython runs requires.\<close>

fun decode_uXXXX :: "pystr \<Rightarrow> nat option" where
  "decode_uXXXX [a, b, c, d] =
     (case (hexval a, hexval b, hexval c, hexval d) of
        (Some x3, Some x2, Some x1, Some x0) \<Rightarrow> Some (((x3 * 16 + x2) * 16 + x1) * 16 + x0)
      | _ \<Rightarrow> None)"
| "decode_uXXXX _ = None"

definition BACKSLASH :: "nat \<Rightarrow> nat option" where
  "BACKSLASH esc =
     (if esc = QUOTE then Some QUOTE
      else if esc = REVERSE_SOLIDUS then Some REVERSE_SOLIDUS
      else if esc = ch CHR ''/'' then Some (ch CHR ''/'')
      else if esc = ch CHR ''b'' then Some 8
      else if esc = ch CHR ''f'' then Some 12
      else if esc = ch CHR ''n'' then Some 10
      else if esc = ch CHR ''r'' then Some 13
      else if esc = ch CHR ''t'' then Some 9
      else None)"

definition append_char :: "nat \<Rightarrow> (pystr \<times> pystr) option \<Rightarrow> (pystr \<times> pystr) option" where
  "append_char c r = (case r of None \<Rightarrow> None | Some (str, rest) \<Rightarrow> Some (c # str, rest))"

lemma append_char_cong [fundef_cong]:
  "c = c' \<Longrightarrow> r = r' \<Longrightarrow> append_char c r = append_char c' r'"
  by simp

text \<open>
  \<open>scanstring(s, end, strict=True)\<close>, from the character after the opening quote: the
  decoded string and the text after the closing quote. A control character, an unknown
  escape, a bad \<open>\uXXXX\<close> and the end of the text before the closing quote are errors. A
  high surrogate escape followed by a low surrogate escape is one code point.
\<close>

fun scanstring :: "pystr \<Rightarrow> (pystr \<times> pystr) option" where
  "scanstring [] = None"
| "scanstring (c # s) =
     (if c = QUOTE then Some ([], s)
      else if c = REVERSE_SOLIDUS then
        (case s of
           [] \<Rightarrow> None
         | esc # s1 \<Rightarrow>
             if esc \<noteq> ch CHR ''u'' then
               (case BACKSLASH esc of
                  None \<Rightarrow> None
                | Some char \<Rightarrow> append_char char (scanstring s1))
             else
               (case decode_uXXXX (take 4 s1) of
                  None \<Rightarrow> None
                | Some uni \<Rightarrow>
                    if 0xd800 \<le> uni \<and> uni \<le> 0xdbff
                       \<and> take 2 (drop 4 s1) = [REVERSE_SOLIDUS, ch CHR ''u'']
                    then
                      (case decode_uXXXX (take 4 (drop 6 s1)) of
                         None \<Rightarrow> None
                       | Some uni2 \<Rightarrow>
                           if 0xdc00 \<le> uni2 \<and> uni2 \<le> 0xdfff
                           then append_char (0x10000 + ((uni - 0xd800) * 1024 + (uni2 - 0xdc00)))
                                  (scanstring (drop 10 s1))
                           else append_char uni (scanstring (drop 4 s1)))
                    else append_char uni (scanstring (drop 4 s1))))
      else if c < 0x20 then None
      else append_char c (scanstring s))"

text \<open>
  \<open>NUMBER_RE\<close>: an integer part \<open>-?(0|[1-9][0-9]*)\<close>, an optional fraction \<open>\.[0-9]+\<close> and
  an optional exponent \<open>[eE][-+]?[0-9]+\<close>. A group that does not match is empty and
  consumes nothing.
\<close>

definition is_digit :: "nat \<Rightarrow> bool" where
  "is_digit c \<longleftrightarrow> ch CHR ''0'' \<le> c \<and> c \<le> ch CHR ''9''"

definition match_integer :: "pystr \<Rightarrow> (pystr \<times> pystr) option" where
  "match_integer s =
     (let (sign, s1) =
            (case s of
               [] \<Rightarrow> ([], s)
             | c # r \<Rightarrow> if c = ch CHR ''-'' then ([c], r) else ([], s))
      in case s1 of
           [] \<Rightarrow> None
         | d # s2 \<Rightarrow>
             if d = ch CHR ''0'' then Some (sign @ [d], s2)
             else if is_digit d
             then Some (sign @ d # takeWhile is_digit s2, dropWhile is_digit s2)
             else None)"

definition match_frac :: "pystr \<Rightarrow> pystr \<times> pystr" where
  "match_frac s =
     (case s of
        [] \<Rightarrow> ([], s)
      | c # r \<Rightarrow>
          if c = ch CHR ''.'' \<and> takeWhile is_digit r \<noteq> []
          then (c # takeWhile is_digit r, dropWhile is_digit r)
          else ([], s))"

definition match_exp :: "pystr \<Rightarrow> pystr \<times> pystr" where
  "match_exp s =
     (case s of
        [] \<Rightarrow> ([], s)
      | c # r \<Rightarrow>
          if c = ch CHR ''e'' \<or> c = ch CHR ''E'' then
            (let (sign, r1) =
                   (case r of
                      [] \<Rightarrow> ([], r)
                    | x # r' \<Rightarrow>
                        if x = ch CHR ''-'' \<or> x = ch CHR ''+'' then ([x], r') else ([], r))
             in if takeWhile is_digit r1 \<noteq> []
                then (c # sign @ takeWhile is_digit r1, dropWhile is_digit r1)
                else ([], s))
          else ([], s))"

definition match_number :: "pystr \<Rightarrow> (pystr \<times> pystr \<times> pystr \<times> pystr) option" where
  "match_number s =
     (case match_integer s of
        None \<Rightarrow> None
      | Some (integer, s1) \<Rightarrow>
          (let (fraction, s2) = match_frac s1; (exponent, s3) = match_exp s2
           in Some (integer, fraction, exponent, s3)))"

text \<open>\<open>int(s)\<close> of an integer part.\<close>

definition digits_value :: "pystr \<Rightarrow> nat" where
  "digits_value ds = foldl (\<lambda>a d. 10 * a + (d - ch CHR ''0'')) 0 ds"

definition parse_int :: "pystr \<Rightarrow> int" where
  "parse_int s =
     (case s of
        [] \<Rightarrow> 0
      | c # r \<Rightarrow> if c = ch CHR ''-'' then - int (digits_value r) else int (digits_value s))"

text \<open>
  The settings of a \<open>JSONDecoder\<close> that the scanner reads: \<open>parse_float\<close>, and
  \<open>parse_constant\<close>, which is called with \<open>NaN\<close>, \<open>Infinity\<close> or \<open>-Infinity\<close> and may raise
  (\<open>None\<close>). The other settings have their defaults: \<open>parse_int\<close> is \<open>int\<close>, \<open>strict\<close> is
  true, there is no hook.
\<close>

record JSONDecoder =
  parse_float :: "pystr \<Rightarrow> pyfloat"
  parse_constant :: "pystr \<Rightarrow> pyfloat option"

lemma length_skip_ws: "length (skip_ws s) \<le> length s"
  by (simp add: skip_ws_def length_dropWhile_le)

lemma skip_ws_Cons: "skip_ws s = c # r \<Longrightarrow> length r < length s"
  using length_skip_ws [of s] by simp

lemma append_char_Some:
  "append_char c r = Some (str, rest) \<longleftrightarrow> (\<exists>str'. r = Some (str', rest) \<and> str = c # str')"
  by (auto simp: append_char_def split: option.splits)

lemma scanstring_shorter: "scanstring s = Some (str, rest) \<Longrightarrow> length rest < length s"
proof (induction s arbitrary: str rest rule: scanstring.induct)
  case 1
  then show ?case by simp
next
  case (2 c s)
  show ?case
    using "2.prems" "2.IH"
    by (fastforce split: if_splits list.splits option.splits simp: append_char_Some)
qed

text \<open>
  \<open>_scan_once\<close>, \<open>JSONObject\<close> and \<open>JSONArray\<close>, each with its \<open>while\<close> loop as a
  function of its own. \<open>JSONObject\<close> and \<open>JSONArray\<close> start after the opening bracket;
  \<open>JSONObject_loop\<close> starts after the opening quote of a key, \<open>JSONArray_loop\<close> at a
  value. The loops return the pairs and the values in order.

  The test on the lengths before each loop goes round again is not in the library: it is
  what makes the recursion well-founded by construction, and it never fails, since a
  value takes at least one character (lemmas \<open>JSONObject_loop_unfold\<close> and
  \<open>JSONArray_loop_unfold\<close> below give the loops without it).
\<close>

function scan_once :: "JSONDecoder \<Rightarrow> pystr \<Rightarrow> (pyval \<times> pystr) option"
  and JSONObject :: "JSONDecoder \<Rightarrow> pystr \<Rightarrow> (pyval \<times> pystr) option"
  and JSONObject_loop :: "JSONDecoder \<Rightarrow> pystr \<Rightarrow> ((pystr \<times> pyval) list \<times> pystr) option"
  and JSONArray :: "JSONDecoder \<Rightarrow> pystr \<Rightarrow> (pyval \<times> pystr) option"
  and JSONArray_loop :: "JSONDecoder \<Rightarrow> pystr \<Rightarrow> (pyval list \<times> pystr) option"
where
  "scan_once ctx s =
     (case s of
        [] \<Rightarrow> None
      | nextchar # s1 \<Rightarrow>
          if nextchar = QUOTE then
            (case scanstring s1 of None \<Rightarrow> None | Some (str, r) \<Rightarrow> Some (PStr str, r))
          else if nextchar = ch CHR ''{'' then JSONObject ctx s1
          else if nextchar = ch CHR ''['' then JSONArray ctx s1
          else if nextchar = ch CHR ''n'' \<and> take 4 s = ascii ''null''
          then Some (PNone, drop 4 s)
          else if nextchar = ch CHR ''t'' \<and> take 4 s = ascii ''true''
          then Some (PBool True, drop 4 s)
          else if nextchar = ch CHR ''f'' \<and> take 5 s = ascii ''false''
          then Some (PBool False, drop 5 s)
          else
            (case match_number s of
               Some (integer, fraction, exponent, r) \<Rightarrow>
                 if fraction \<noteq> [] \<or> exponent \<noteq> []
                 then Some (PFloat (parse_float ctx (integer @ fraction @ exponent)), r)
                 else Some (PInt (parse_int integer), r)
             | None \<Rightarrow>
                 if nextchar = ch CHR ''N'' \<and> take 3 s = ascii ''NaN'' then
                   (case parse_constant ctx (ascii ''NaN'') of
                      None \<Rightarrow> None
                    | Some x \<Rightarrow> Some (PFloat x, drop 3 s))
                 else if nextchar = ch CHR ''I'' \<and> take 8 s = ascii ''Infinity'' then
                   (case parse_constant ctx (ascii ''Infinity'') of
                      None \<Rightarrow> None
                    | Some x \<Rightarrow> Some (PFloat x, drop 8 s))
                 else if nextchar = ch CHR ''-'' \<and> take 9 s = ascii ''-Infinity'' then
                   (case parse_constant ctx (ascii ''-Infinity'') of
                      None \<Rightarrow> None
                    | Some x \<Rightarrow> Some (PFloat x, drop 9 s))
                 else None))"
| "JSONObject ctx s =
     (case skip_ws s of
        [] \<Rightarrow> None
      | nextchar # s1 \<Rightarrow>
          if nextchar = ch CHR ''}'' then Some (PDict [], s1)
          else if nextchar \<noteq> QUOTE then None
          else
            (case JSONObject_loop ctx s1 of
               None \<Rightarrow> None
             | Some (pairs, r) \<Rightarrow> Some (PDict (dict pairs), r)))"
| "JSONObject_loop ctx s =
     (case scanstring s of
        None \<Rightarrow> None
      | Some (key, s1) \<Rightarrow>
          (case skip_ws s1 of
             [] \<Rightarrow> None
           | colon # s2 \<Rightarrow>
               if colon \<noteq> ch CHR '':'' then None
               else
                 (case scan_once ctx (skip_ws s2) of
                    None \<Rightarrow> None
                  | Some (val, s3) \<Rightarrow>
                      (case skip_ws s3 of
                         [] \<Rightarrow> None
                       | nextchar # s4 \<Rightarrow>
                           if nextchar = ch CHR ''}'' then Some ([(key, val)], s4)
                           else if nextchar \<noteq> ch CHR '','' then None
                           else
                             (case skip_ws s4 of
                                [] \<Rightarrow> None
                              | quote # s5 \<Rightarrow>
                                  if quote \<noteq> QUOTE then None
                                  else if length s \<le> length s5 then None
                                  else
                                    (case JSONObject_loop ctx s5 of
                                       None \<Rightarrow> None
                                     | Some (pairs, r) \<Rightarrow> Some ((key, val) # pairs, r)))))))"
| "JSONArray ctx s =
     (case skip_ws s of
        [] \<Rightarrow> None
      | nextchar # s1 \<Rightarrow>
          if nextchar = ch CHR '']'' then Some (PList [], s1)
          else
            (case JSONArray_loop ctx (skip_ws s) of
               None \<Rightarrow> None
             | Some (vals, r) \<Rightarrow> Some (PList vals, r)))"
| "JSONArray_loop ctx s =
     (case scan_once ctx s of
        None \<Rightarrow> None
      | Some (val, s1) \<Rightarrow>
          (case skip_ws s1 of
             [] \<Rightarrow> None
           | nextchar # s2 \<Rightarrow>
               if nextchar = ch CHR '']'' then Some ([val], s2)
               else if nextchar \<noteq> ch CHR '','' then None
               else if length s \<le> length s2 then None
               else
                 (case JSONArray_loop ctx (skip_ws s2) of
                    None \<Rightarrow> None
                  | Some (vals, r) \<Rightarrow> Some (val # vals, r))))"
  by pat_completeness auto

termination
  apply (relation "measure (\<lambda>x. case x of
            Inl (Inl (ctx, s)) \<Rightarrow> 3 * length s
          | Inl (Inr (ctx, s)) \<Rightarrow> 3 * length s + 2
          | Inr (Inl (ctx, s)) \<Rightarrow> 3 * length s + 1
          | Inr (Inr (Inl (ctx, s))) \<Rightarrow> 3 * length s + 2
          | Inr (Inr (Inr (ctx, s))) \<Rightarrow> 3 * length s + 1)")
  apply (auto dest!: scanstring_shorter skip_ws_Cons)
  subgoal for s b x22 using length_skip_ws [of x22] by linarith
  subgoal for ctx s a b x22 using length_skip_ws [of x22] by linarith
  done

text \<open>
  \<open>JSONDecoder.decode\<close>: one value, with white space allowed before and after it and
  nothing else (\<open>Extra data\<close>).
\<close>

definition decode :: "JSONDecoder \<Rightarrow> pystr \<Rightarrow> pyval option" where
  "decode ctx s =
     (case scan_once ctx (skip_ws s) of
        None \<Rightarrow> None
      | Some (obj, r) \<Rightarrow> if skip_ws r \<noteq> [] then None else Some obj)"

text \<open>\<open>_CONSTANTS.__getitem__\<close>, the default \<open>parse_constant\<close>.\<close>

definition CONSTANTS :: "pystr \<Rightarrow> pyfloat option" where
  "CONSTANTS name =
     (if name = ascii ''-Infinity'' then Some NegInf
      else if name = ascii ''Infinity'' then Some PosInf
      else if name = ascii ''NaN'' then Some NaN
      else None)"

definition default_decoder :: "platform \<Rightarrow> JSONDecoder" where
  "default_decoder rt = \<lparr>parse_float = py_float rt, parse_constant = CONSTANTS\<rparr>"

text \<open>\<open>json.loads(s)\<close> of a \<open>str\<close>: a leading byte order mark is refused, then the default
  decoder runs. \<open>json.load(fp)\<close> is \<open>json.loads(fp.read())\<close>.\<close>

definition json_loads :: "platform \<Rightarrow> pystr \<Rightarrow> exn + pyval" where
  "json_loads rt s =
     (if take 1 s = [0xfeff] then Inl JSONDecodeError
      else case decode (default_decoder rt) s of
             None \<Rightarrow> Inl JSONDecodeError
           | Some obj \<Rightarrow> Inr obj)"

definition json_load :: "platform \<Rightarrow> pystr \<Rightarrow> exn + pyval" where
  "json_load rt fp = json_loads rt fp"

subsection \<open>The encoder: \<open>json.dump\<close>\<close>

text \<open>
  The default encoder: \<open>ensure_ascii\<close> and \<open>allow_nan\<close> are true, the separators are
  \<open>", "\<close> and \<open>": "\<close>, there is no indentation and no sorting of keys.
\<close>

definition hexdigit :: "nat \<Rightarrow> nat" where
  "hexdigit n = (if n < 10 then ch CHR ''0'' + n else ch CHR ''a'' + (n - 10))"

text \<open>\<open>'{0:04x}'.format(n)\<close> for \<open>n < 0x10000\<close>.\<close>

definition hex4 :: "nat \<Rightarrow> pystr" where
  "hex4 n =
     [hexdigit (n div 4096 mod 16), hexdigit (n div 256 mod 16),
      hexdigit (n div 16 mod 16), hexdigit (n mod 16)]"

text \<open>The replacement of one character that \<open>ESCAPE_ASCII\<close> matches: \<open>ESCAPE_DCT\<close> first,
  then \<open>\uXXXX\<close>, as a surrogate pair above the basic plane.\<close>

definition replace :: "nat \<Rightarrow> pystr" where
  "replace c =
     (if c = REVERSE_SOLIDUS then [REVERSE_SOLIDUS, REVERSE_SOLIDUS]
      else if c = QUOTE then [REVERSE_SOLIDUS, QUOTE]
      else if c = 8 then [REVERSE_SOLIDUS, ch CHR ''b'']
      else if c = 12 then [REVERSE_SOLIDUS, ch CHR ''f'']
      else if c = 10 then [REVERSE_SOLIDUS, ch CHR ''n'']
      else if c = 13 then [REVERSE_SOLIDUS, ch CHR ''r'']
      else if c = 9 then [REVERSE_SOLIDUS, ch CHR ''t'']
      else if c < 0x10000 then [REVERSE_SOLIDUS, ch CHR ''u''] @ hex4 c
      else
        [REVERSE_SOLIDUS, ch CHR ''u''] @ hex4 (0xd800 + (c - 0x10000) div 1024 mod 1024) @
        [REVERSE_SOLIDUS, ch CHR ''u''] @ hex4 (0xdc00 + (c - 0x10000) mod 1024))"

text \<open>\<open>ESCAPE_ASCII\<close> matches a backslash, a quote and every character outside the range
  from the space to the tilde.\<close>

definition ESCAPE_ASCII :: "nat \<Rightarrow> bool" where
  "ESCAPE_ASCII c \<longleftrightarrow>
     c = REVERSE_SOLIDUS \<or> c = QUOTE \<or> \<not> (ch CHR '' '' \<le> c \<and> c \<le> ch CHR ''~'')"

definition encode_basestring_ascii :: "pystr \<Rightarrow> pystr" where
  "encode_basestring_ascii s =
     QUOTE # concat (map (\<lambda>c. if ESCAPE_ASCII c then replace c else [c]) s) @ [QUOTE]"

text \<open>\<open>int.__repr__\<close>: the decimal digits, after a minus sign for a negative number.\<close>

fun decimal :: "nat \<Rightarrow> pystr" where
  "decimal n = (if n < 10 then [ch CHR ''0'' + n] else decimal (n div 10) @ [ch CHR ''0'' + n mod 10])"

declare decimal.simps [simp del]

definition intstr :: "int \<Rightarrow> pystr" where
  "intstr i = (if i < 0 then ch CHR ''-'' # decimal (nat (- i)) else decimal (nat i))"

text \<open>\<open>floatstr\<close>: the three special values have fixed texts, which \<open>allow_nan\<close> lets
  through; a finite float is printed by \<open>float.__repr__\<close>.\<close>

definition floatstr :: "platform \<Rightarrow> pyfloat \<Rightarrow> pystr" where
  "floatstr rt o' =
     (case o' of
        NaN \<Rightarrow> ascii ''NaN''
      | PosInf \<Rightarrow> ascii ''Infinity''
      | NegInf \<Rightarrow> ascii ''-Infinity''
      | Finite sg m e \<Rightarrow> py_float_repr rt o')"

text \<open>
  \<open>_iterencode\<close>, \<open>_iterencode_list\<close> and \<open>_iterencode_dict\<close>: the chunks they yield, joined.
  The two list functions take the items that remain, \<open>first\<close> telling whether a separator
  goes before the next one. The keys of a decoded dict are strings.
\<close>

fun iterencode :: "platform \<Rightarrow> pyval \<Rightarrow> pystr"
  and iterencode_list :: "platform \<Rightarrow> bool \<Rightarrow> pyval list \<Rightarrow> pystr"
  and iterencode_dict :: "platform \<Rightarrow> bool \<Rightarrow> (pystr \<times> pyval) list \<Rightarrow> pystr"
where
  "iterencode rt (PStr s) = encode_basestring_ascii s"
| "iterencode rt PNone = ascii ''null''"
| "iterencode rt (PBool b) = (if b then ascii ''true'' else ascii ''false'')"
| "iterencode rt (PInt i) = intstr i"
| "iterencode rt (PFloat x) = floatstr rt x"
| "iterencode rt (PList lst) = ascii ''['' @ iterencode_list rt True lst @ ascii '']''"
| "iterencode rt (PDict dct) = ascii ''{'' @ iterencode_dict rt True dct @ ascii ''}''"
| "iterencode_list rt first [] = []"
| "iterencode_list rt first (v # lst) =
     (if first then [] else ascii '', '') @ iterencode rt v @ iterencode_list rt False lst"
| "iterencode_dict rt first [] = []"
| "iterencode_dict rt first ((key, v) # items) =
     (if first then [] else ascii '', '') @ encode_basestring_ascii key @ ascii '': '' @
     iterencode rt v @ iterencode_dict rt False items"

subsection \<open>The process\<close>

text \<open>
  What the script reads and writes: the text on standard input, the text written to
  standard output so far, and the wall clock. \<open>clock p n\<close> is the value of the call
  number \<open>n\<close> of \<open>time.time()\<close>, a finite float given by its value; \<open>clock_reads\<close> counts
  the calls made.
\<close>

record process =
  stdin :: pystr
  stdout :: pystr
  clock :: "nat \<Rightarrow> real"
  clock_reads :: nat

definition time_time :: "process \<Rightarrow> real \<times> process" where
  "time_time p = (clock p (clock_reads p), p\<lparr>clock_reads := Suc (clock_reads p)\<rparr>)"

text \<open>\<open>json.dump(obj, fp)\<close> writes every chunk of \<open>iterencode(obj)\<close> to \<open>fp\<close>.\<close>

definition json_dump :: "platform \<Rightarrow> pyval \<Rightarrow> process \<Rightarrow> process" where
  "json_dump rt obj p = p\<lparr>stdout := stdout p @ iterencode rt obj\<rparr>"

text \<open>\<open>main\<close>: an exception leaves through the first branch that raises it, with the
  process as it is at that point.\<close>

definition main :: "platform \<Rightarrow> process \<Rightarrow> (exn + unit) \<times> process" where
  "main rt p =
     (case json_load rt (stdin p) of
        Inl e \<Rightarrow> (Inl e, p)
      | Inr data \<Rightarrow>
          (case setitem data (ascii ''echoed_by'') (PStr (ascii ''python'')) of
             Inl e \<Rightarrow> (Inl e, p)
           | Inr data1 \<Rightarrow>
               (let (t, p1) = time_time p
                in case setitem data1 (ascii ''ts'') (PInt (int_of_float t)) of
                     Inl e \<Rightarrow> (Inl e, p1)
                   | Inr data2 \<Rightarrow> (Inr (), json_dump rt data2 p1))))"

text \<open>
  The script calls \<open>main()\<close> and catches nothing. The interpreter ends with status 0 when
  \<open>main\<close> returns, and with status 1 and a traceback on the error stream when an exception
  leaves it.
\<close>

record outcome =
  exit_status :: nat
  uncaught :: "exn option"
  final :: process

definition run :: "platform \<Rightarrow> process \<Rightarrow> outcome" where
  "run rt p =
     (case main rt p of
        (Inl e, p') \<Rightarrow> \<lparr>exit_status = 1, uncaught = Some e, final = p'\<rparr>
      | (Inr u, p') \<Rightarrow> \<lparr>exit_status = 0, uncaught = None, final = p'\<rparr>)"

text \<open>A process at its start: nothing written, the clock not read.\<close>

definition start :: "pystr \<Rightarrow> (nat \<Rightarrow> real) \<Rightarrow> process" where
  "start input c = \<lparr>stdin = input, stdout = [], clock = c, clock_reads = 0\<rparr>"

subsection \<open>What a run does\<close>

text \<open>\<open>isinstance(v, dict)\<close>.\<close>

fun is_dict :: "pyval \<Rightarrow> bool" where
  "is_dict (PDict d) = True"
| "is_dict _ = False"

text \<open>The dict after the two assignments of \<open>main\<close>, \<open>t\<close> being the value of the clock.\<close>

definition stamped :: "(pystr \<times> pyval) list \<Rightarrow> real \<Rightarrow> (pystr \<times> pyval) list" where
  "stamped d t = dict_setitem (dict_setitem d (ascii ''echoed_by'') (PStr (ascii ''python''))) (ascii ''ts'') (PInt (int_of_float t))"

text \<open>The three ways through \<open>main\<close>.\<close>

lemma json_load_error: "json_load rt s = Inl e \<Longrightarrow> e = JSONDecodeError"
  by (auto simp: json_load_def json_loads_def split: if_splits option.splits)

lemma run_load_error:
  "json_load rt (stdin p) = Inl e \<Longrightarrow> run rt p = \<lparr>exit_status = 1, uncaught = Some JSONDecodeError, final = p\<rparr>"
  by (frule json_load_error) (simp add: run_def main_def)

lemma run_not_dict:
  "json_load rt (stdin p) = Inr v \<Longrightarrow> \<not> is_dict v \<Longrightarrow>
   run rt p = \<lparr>exit_status = 1, uncaught = Some TypeError, final = p\<rparr>"
  by (cases v) (simp_all add: run_def main_def)

lemma run_dict:
  "json_load rt (stdin p) = Inr (PDict d) \<Longrightarrow>
   run rt p =
     \<lparr>exit_status = 0, uncaught = None,
      final = p\<lparr>clock_reads := Suc (clock_reads p),
                stdout := stdout p @ iterencode rt (PDict (stamped d (clock p (clock_reads p))))\<rparr>\<rparr>"
  by (simp add: run_def main_def time_time_def json_dump_def stamped_def)


lemma map_fst_dict_setitem:
  "map fst (dict_setitem d k v) = (if k \<in> set (map fst d) then map fst d else map fst d @ [k])"
  by (induction d k v rule: dict_setitem.induct) (simp_all del: set_map)


lemma filter_dict_setitem:
  "\<not> P k \<Longrightarrow> filter (\<lambda>kv. P (fst kv)) (dict_setitem d k v) = filter (\<lambda>kv. P (fst kv)) d"
  by (induction d k v rule: dict_setitem.induct) auto

lemma map_of_dict_setitem: "map_of (dict_setitem d k v) = (map_of d)(k \<mapsto> v)"
  by (induction d k v rule: dict_setitem.induct) (auto simp: fun_eq_iff)





subsection \<open>Properties of the decoder\<close>

text \<open>The equations of the five functions rewrite any call, so they are used by hand.\<close>

declare scan_once.simps [simp del] JSONObject.simps [simp del] JSONObject_loop.simps [simp del]
  JSONArray.simps [simp del] JSONArray_loop.simps [simp del]

text \<open>The branches of \<open>_scan_once\<close> that do not recurse, from \<open>null\<close> on. The first
  character is that of the literal, so its test is part of the comparison.\<close>

definition scan_atom :: "JSONDecoder \<Rightarrow> pystr \<Rightarrow> (pyval \<times> pystr) option" where
  "scan_atom ctx s =
     (if take 4 s = ascii ''null'' then Some (PNone, drop 4 s)
      else if take 4 s = ascii ''true'' then Some (PBool True, drop 4 s)
      else if take 5 s = ascii ''false'' then Some (PBool False, drop 5 s)
      else
        (case match_number s of
           Some (integer, fraction, exponent, r) \<Rightarrow>
             if fraction \<noteq> [] \<or> exponent \<noteq> []
             then Some (PFloat (parse_float ctx (integer @ fraction @ exponent)), r)
             else Some (PInt (parse_int integer), r)
         | None \<Rightarrow>
             if take 3 s = ascii ''NaN'' then
               (case parse_constant ctx (ascii ''NaN'') of
                  None \<Rightarrow> None
                | Some x \<Rightarrow> Some (PFloat x, drop 3 s))
             else if take 8 s = ascii ''Infinity'' then
               (case parse_constant ctx (ascii ''Infinity'') of
                  None \<Rightarrow> None
                | Some x \<Rightarrow> Some (PFloat x, drop 8 s))
             else if take 9 s = ascii ''-Infinity'' then
               (case parse_constant ctx (ascii ''-Infinity'') of
                  None \<Rightarrow> None
                | Some x \<Rightarrow> Some (PFloat x, drop 9 s))
             else None))"

lemma scan_once_Nil: "scan_once ctx [] = None"
  by (subst scan_once.simps) simp

lemma head_literal:
  "(c = ch CHR ''n'' \<and> take 4 (c # s) = ascii ''null'') = (take 4 (c # s) = ascii ''null'')"
  "(c = ch CHR ''t'' \<and> take 4 (c # s) = ascii ''true'') = (take 4 (c # s) = ascii ''true'')"
  "(c = ch CHR ''f'' \<and> take 5 (c # s) = ascii ''false'') = (take 5 (c # s) = ascii ''false'')"
  "(c = ch CHR ''N'' \<and> take 3 (c # s) = ascii ''NaN'') = (take 3 (c # s) = ascii ''NaN'')"
  "(c = ch CHR ''I'' \<and> take 8 (c # s) = ascii ''Infinity'') = (take 8 (c # s) = ascii ''Infinity'')"
  "(c = ch CHR ''-'' \<and> take 9 (c # s) = ascii ''-Infinity'') = (take 9 (c # s) = ascii ''-Infinity'')"
  by (auto simp: ascii_def take_Cons')

lemma scan_once_Cons:
  "scan_once ctx (c # s1) =
     (if c = QUOTE then
        (case scanstring s1 of None \<Rightarrow> None | Some (str, r) \<Rightarrow> Some (PStr str, r))
      else if c = ch CHR ''{'' then JSONObject ctx s1
      else if c = ch CHR ''['' then JSONArray ctx s1
      else scan_atom ctx (c # s1))"
  by (subst scan_once.simps) (simp only: list.case head_literal scan_atom_def)


text \<open>Every function that returns has consumed at least one character.\<close>

lemma match_integer_shorter: "match_integer s = Some (i, r) \<Longrightarrow> length r < length s"
  using length_dropWhile_le [of is_digit "tl (tl s)"] length_dropWhile_le [of is_digit "tl s"]
  by (auto simp: match_integer_def split: list.split_asm if_split_asm)

lemma match_frac_shorter: "match_frac s = (f, r) \<Longrightarrow> length r \<le> length s"
  using length_dropWhile_le [of is_digit "tl s"]
  by (auto simp: match_frac_def split: list.split_asm if_split_asm)

lemma match_exp_shorter: "match_exp s = (e, r) \<Longrightarrow> length r \<le> length s"
  using length_dropWhile_le [of is_digit "tl (tl s)"] length_dropWhile_le [of is_digit "tl s"]
  by (auto simp: match_exp_def split: list.split_asm if_split_asm)

lemma match_number_shorter: "match_number s = Some (i, f, e, r) \<Longrightarrow> length r < length s"
  by (auto simp: match_number_def split: option.split_asm prod.split_asm
      dest!: match_integer_shorter match_frac_shorter match_exp_shorter)

lemma take_eq_ascii: "take n s = ascii lit \<Longrightarrow> n = length lit \<Longrightarrow> 0 < n \<Longrightarrow> length (drop n s) < length s"
proof -
  assume eq: "take n s = ascii lit" and n: "n = length lit" "0 < n"
  from eq have "length (take n s) = length lit"
    by (simp add: ascii_def)
  with n have "n \<le> length s"
    by simp
  with n show ?thesis
    unfolding length_drop by linarith
qed

lemma scan_atom_shorter: "scan_atom ctx s = Some (v, r) \<Longrightarrow> length r < length s"
  by (auto simp: scan_atom_def split: option.split_asm prod.split_asm if_split_asm
      dest: match_number_shorter take_eq_ascii)


text \<open>The ways in which the container parsers succeed.\<close>

lemma JSONObject_SomeE:
  assumes "JSONObject ctx s = Some (v, r)"
  obtains (empty) "skip_ws s = ch CHR ''}'' # r" "v = PDict []"
  | (pairs) s1 ps where "skip_ws s = QUOTE # s1" "JSONObject_loop ctx s1 = Some (ps, r)"
      "v = PDict (dict ps)"
  using assms
  by (subst (asm) JSONObject.simps)
     (auto split: list.split_asm if_split_asm option.split_asm)

lemma JSONObject_loop_SomeE:
  assumes "JSONObject_loop ctx s = Some (ps, r)"
  obtains (last) key s1 s2 val s3 where
      "scanstring s = Some (key, s1)" "skip_ws s1 = ch CHR '':'' # s2"
      "scan_once ctx (skip_ws s2) = Some (val, s3)" "skip_ws s3 = ch CHR ''}'' # r"
      "ps = [(key, val)]"
  | (more) key s1 s2 val s3 s4 s5 ps' where
      "scanstring s = Some (key, s1)" "skip_ws s1 = ch CHR '':'' # s2"
      "scan_once ctx (skip_ws s2) = Some (val, s3)" "skip_ws s3 = ch CHR '','' # s4"
      "skip_ws s4 = QUOTE # s5" "length s5 < length s"
      "JSONObject_loop ctx s5 = Some (ps', r)" "ps = (key, val) # ps'"
  using assms
  by (subst (asm) JSONObject_loop.simps)
     (auto split: list.split_asm if_split_asm option.split_asm)

lemma JSONArray_SomeE:
  assumes "JSONArray ctx s = Some (v, r)"
  obtains (empty) "skip_ws s = ch CHR '']'' # r" "v = PList []"
  | (items) c s1 vs where "skip_ws s = c # s1" "c \<noteq> ch CHR '']''"
      "JSONArray_loop ctx (skip_ws s) = Some (vs, r)" "v = PList vs"
  using assms
  by (subst (asm) JSONArray.simps)
     (auto split: list.split_asm if_split_asm option.split_asm)

lemma JSONArray_loop_SomeE:
  assumes "JSONArray_loop ctx s = Some (vs, r)"
  obtains (last) val s1 where
      "scan_once ctx s = Some (val, s1)" "skip_ws s1 = ch CHR '']'' # r" "vs = [val]"
  | (more) val s1 s2 vs' where
      "scan_once ctx s = Some (val, s1)" "skip_ws s1 = ch CHR '','' # s2"
      "length s2 < length s" "JSONArray_loop ctx (skip_ws s2) = Some (vs', r)"
      "vs = val # vs'"
  using assms
  by (subst (asm) JSONArray_loop.simps)
     (auto split: list.split_asm if_split_asm option.split_asm)


lemma decoder_shorter:
  shows "scan_once ctx s = Some (v1, r1) \<Longrightarrow> length r1 < length s"
    and "JSONObject ctx s = Some (v2, r2) \<Longrightarrow> length r2 < length s"
    and "JSONObject_loop ctx s = Some (ps, r3) \<Longrightarrow> length r3 < length s"
    and "JSONArray ctx s = Some (v4, r4) \<Longrightarrow> length r4 < length s"
    and "JSONArray_loop ctx s = Some (vs, r5) \<Longrightarrow> length r5 < length s"
proof (induction ctx s and ctx s and ctx s and ctx s and ctx s
       arbitrary: v1 r1 and v2 r2 and ps r3 and v4 r4 and vs r5
       rule: scan_once_JSONObject_JSONObject_loop_JSONArray_JSONArray_loop.induct)
  case (1 ctx s)
  show ?case
  proof (cases s)
    case Nil
    with "1.prems" show ?thesis by (simp add: scan_once_Nil)
  next
    case (Cons c s1)
    with "1.prems" "1.IH"(1) [of c s1] "1.IH"(2) [of c s1] show ?thesis
      by (auto simp: scan_once_Cons split: if_split_asm option.split_asm
          dest!: scanstring_shorter scan_atom_shorter)
  qed
next
  case (2 ctx s)
  from "2.prems" show ?case
  proof (cases rule: JSONObject_SomeE)
    case empty
    then show ?thesis by (auto dest: skip_ws_Cons)
  next
    case (pairs s1 ps)
    have "length r2 < length s1"
      by (rule "2.IH" [OF pairs(1) _ _ pairs(2)]) simp_all
    with skip_ws_Cons [OF pairs(1)] show ?thesis by simp
  qed
next
  case (3 ctx s)
  from "3.prems" show ?case
  proof (cases rule: JSONObject_loop_SomeE)
    case (last key s1 s2 val s3)
    have "length s3 < length (skip_ws s2)"
      by (rule "3.IH"(1) [OF last(1) refl last(2) _ last(3)]) simp
    with skip_ws_Cons [OF last(4)] skip_ws_Cons [OF last(2)] scanstring_shorter [OF last(1)]
      length_skip_ws [of s2]
    show ?thesis by simp
  next
    case (more key s1 s2 val s3 s4 s5 ps')
    have "length r3 < length s5"
      by (rule "3.IH"(2) [OF more(1) refl more(2) _ more(3) refl more(4) _ _ more(5) _ _ more(7)])
         (use more(6) in simp_all)
    with more(6) show ?thesis by simp
  qed
next
  case (4 ctx s)
  from "4.prems" show ?case
  proof (cases rule: JSONArray_SomeE)
    case empty
    then show ?thesis by (auto dest: skip_ws_Cons)
  next
    case (items c s1 vs)
    have "length r4 < length (skip_ws s)"
      by (rule "4.IH" [OF items(1) items(2) items(3)])
    with length_skip_ws [of s] show ?thesis by simp
  qed
next
  case (5 ctx s)
  from "5.prems" show ?case
  proof (cases rule: JSONArray_loop_SomeE)
    case (last val s1)
    from "5.IH"(1) [OF last(1)] skip_ws_Cons [OF last(2)] show ?thesis by simp
  next
    case (more val s1 s2 vs')
    have "length r5 < length (skip_ws s2)"
      by (rule "5.IH"(2) [OF more(1) refl more(2) _ _ _ more(4)]) (use more(3) in simp_all)
    with length_skip_ws [of s2] more(3) show ?thesis by simp
  qed
qed


text \<open>The loops as the library has them: the test on the lengths never fails.\<close>

lemma JSONArray_loop_unfold:
  "JSONArray_loop ctx s =
     (case scan_once ctx s of
        None \<Rightarrow> None
      | Some (val, s1) \<Rightarrow>
          (case skip_ws s1 of
             [] \<Rightarrow> None
           | nextchar # s2 \<Rightarrow>
               if nextchar = ch CHR '']'' then Some ([val], s2)
               else if nextchar \<noteq> ch CHR '','' then None
               else
                 (case JSONArray_loop ctx (skip_ws s2) of
                    None \<Rightarrow> None
                  | Some (vals, r) \<Rightarrow> Some (val # vals, r))))"
  by (subst JSONArray_loop.simps)
     (auto split: option.splits list.splits dest!: decoder_shorter(1) skip_ws_Cons)

lemma JSONObject_loop_unfold:
  "JSONObject_loop ctx s =
     (case scanstring s of
        None \<Rightarrow> None
      | Some (key, s1) \<Rightarrow>
          (case skip_ws s1 of
             [] \<Rightarrow> None
           | colon # s2 \<Rightarrow>
               if colon \<noteq> ch CHR '':'' then None
               else
                 (case scan_once ctx (skip_ws s2) of
                    None \<Rightarrow> None
                  | Some (val, s3) \<Rightarrow>
                      (case skip_ws s3 of
                         [] \<Rightarrow> None
                       | nextchar # s4 \<Rightarrow>
                           if nextchar = ch CHR ''}'' then Some ([(key, val)], s4)
                           else if nextchar \<noteq> ch CHR '','' then None
                           else
                             (case skip_ws s4 of
                                [] \<Rightarrow> None
                              | quote # s5 \<Rightarrow>
                                  if quote \<noteq> QUOTE then None
                                  else
                                    (case JSONObject_loop ctx s5 of
                                       None \<Rightarrow> None
                                     | Some (pairs, r) \<Rightarrow> Some ((key, val) # pairs, r)))))))"
proof -
  have "\<not> length s \<le> length s5"
    if "scanstring s = Some (key, s1)" "skip_ws s1 = c # s2"
      "scan_once ctx (skip_ws s2) = Some (val, s3)" "skip_ws s3 = c' # s4" "skip_ws s4 = q # s5"
    for key s1 c s2 val s3 c' s4 q s5
    using scanstring_shorter [OF that(1)] skip_ws_Cons [OF that(2)] length_skip_ws [of s2]
      decoder_shorter(1) [OF that(3)] skip_ws_Cons [OF that(4)] skip_ws_Cons [OF that(5)]
    by linarith
  then show ?thesis
    by (subst JSONObject_loop.simps) (auto split: option.splits list.splits)
qed

text \<open>
  What a decoder accepts does not depend on \<open>parse_float\<close>, and grows with the names on
  which \<open>parse_constant\<close> returns: where one decoder returns a value and the rest of the
  text, a decoder that accepts more returns a value and the same rest, and an object for
  an object.
\<close>

definition accepts_more :: "JSONDecoder \<Rightarrow> JSONDecoder \<Rightarrow> bool" where
  "accepts_more ctx ctx' \<longleftrightarrow>
     (\<forall>n. parse_constant ctx n \<noteq> None \<longrightarrow> parse_constant ctx' n \<noteq> None)"

lemma scan_atom_not_dict: "scan_atom ctx s = Some (v, r) \<Longrightarrow> \<not> is_dict v"
  by (auto simp: scan_atom_def split: option.split_asm prod.split_asm if_split_asm)

lemma scan_atom_mono:
  assumes "accepts_more ctx ctx'" and "scan_atom ctx s = Some (v, r)"
  shows "\<exists>v'. scan_atom ctx' s = Some (v', r)"
proof -
  have "\<exists>y. parse_constant ctx' n = Some y" if "parse_constant ctx n = Some x" for n x
    using assms(1) that by (auto simp: accepts_more_def)
  with assms(2) show ?thesis
    by (fastforce simp: scan_atom_def split: option.split_asm prod.split_asm if_split_asm)
qed

lemma decoder_mono:
  shows "accepts_more ctx ctx' \<Longrightarrow> scan_once ctx s = Some (v1, r1) \<Longrightarrow>
          \<exists>v'. scan_once ctx' s = Some (v', r1) \<and> is_dict v' = is_dict v1"
    and "accepts_more ctx ctx' \<Longrightarrow> JSONObject ctx s = Some (v2, r2) \<Longrightarrow>
          \<exists>v'. JSONObject ctx' s = Some (v', r2) \<and> is_dict v' \<and> is_dict v2"
    and "accepts_more ctx ctx' \<Longrightarrow> JSONObject_loop ctx s = Some (ps, r3) \<Longrightarrow>
          \<exists>ps'. JSONObject_loop ctx' s = Some (ps', r3)"
    and "accepts_more ctx ctx' \<Longrightarrow> JSONArray ctx s = Some (v4, r4) \<Longrightarrow>
          \<exists>v'. JSONArray ctx' s = Some (v', r4) \<and> \<not> is_dict v' \<and> \<not> is_dict v4"
    and "accepts_more ctx ctx' \<Longrightarrow> JSONArray_loop ctx s = Some (vs, r5) \<Longrightarrow>
          \<exists>vs'. JSONArray_loop ctx' s = Some (vs', r5)"
proof (induction ctx s and ctx s and ctx s and ctx s and ctx s
       arbitrary: v1 r1 and v2 r2 and ps r3 and v4 r4 and vs r5
       rule: scan_once_JSONObject_JSONObject_loop_JSONArray_JSONArray_loop.induct)
  case (1 ctx s)
  note le = "1.prems"(1)
  show ?case
  proof (cases s)
    case Nil
    with "1.prems"(2) show ?thesis by (simp add: scan_once_Nil)
  next
    case (Cons c s1)
    consider (str) "c = QUOTE"
      | (obj) "c \<noteq> QUOTE" "c = ch CHR ''{''"
      | (arr) "c \<noteq> QUOTE" "c \<noteq> ch CHR ''{''" "c = ch CHR ''[''"
      | (atom) "c \<noteq> QUOTE" "c \<noteq> ch CHR ''{''" "c \<noteq> ch CHR ''[''"
      by blast
    then show ?thesis
    proof cases
      case str
      with Cons "1.prems"(2) show ?thesis
        by (auto simp: scan_once_Cons split: option.split_asm)
    next
      case obj
      with Cons "1.prems"(2) have "JSONObject ctx s1 = Some (v1, r1)"
        by (simp add: scan_once_Cons)
      from "1.IH"(1) [OF Cons obj le this] Cons obj show ?thesis
        by (auto simp: scan_once_Cons)
    next
      case arr
      with Cons "1.prems"(2) have "JSONArray ctx s1 = Some (v1, r1)"
        by (simp add: scan_once_Cons)
      from "1.IH"(2) [OF Cons arr le this] Cons arr show ?thesis
        by (auto simp: scan_once_Cons)
    next
      case atom
      with Cons "1.prems"(2) have a: "scan_atom ctx s = Some (v1, r1)"
        by (simp add: scan_once_Cons)
      from scan_atom_mono [OF le a] obtain v' where v': "scan_atom ctx' s = Some (v', r1)"
        by auto
      from scan_atom_not_dict [OF a] scan_atom_not_dict [OF v'] v' Cons atom show ?thesis
        by (simp add: scan_once_Cons)
    qed
  qed
next
  case (2 ctx s)
  note le = "2.prems"(1)
  from "2.prems"(2) show ?case
  proof (cases rule: JSONObject_SomeE)
    case empty
    then show ?thesis by (subst JSONObject.simps) simp
  next
    case (pairs s1 ps)
    have "\<exists>ps'. JSONObject_loop ctx' s1 = Some (ps', r2)"
      by (rule "2.IH" [OF pairs(1) _ _ le pairs(2)]) simp_all
    with pairs show ?thesis by (subst JSONObject.simps) auto
  qed
next
  case (3 ctx s)
  note le = "3.prems"(1)
  from "3.prems"(2) show ?case
  proof (cases rule: JSONObject_loop_SomeE)
    case (last key s1 s2 val s3)
    have "\<exists>v'. scan_once ctx' (skip_ws s2) = Some (v', s3) \<and> is_dict v' = is_dict val"
      by (rule "3.IH"(1) [OF last(1) refl last(2) _ le last(3)]) simp
    with last show ?thesis by (subst JSONObject_loop.simps) auto
  next
    case (more key s1 s2 val s3 s4 s5 ps')
    have "\<exists>v'. scan_once ctx' (skip_ws s2) = Some (v', s3) \<and> is_dict v' = is_dict val"
      by (rule "3.IH"(1) [OF more(1) refl more(2) _ le more(3)]) simp
    moreover have "\<exists>ps''. JSONObject_loop ctx' s5 = Some (ps'', r3)"
      by (rule "3.IH"(2) [OF more(1) refl more(2) _ more(3) refl more(4) _ _ more(5) _ _ le more(7)])
         (use more(6) in simp_all)
    ultimately show ?thesis using more by (subst JSONObject_loop.simps) auto
  qed
next
  case (4 ctx s)
  note le = "4.prems"(1)
  from "4.prems"(2) show ?case
  proof (cases rule: JSONArray_SomeE)
    case empty
    then show ?thesis by (subst JSONArray.simps) simp
  next
    case (items c s1 vs)
    have "\<exists>vs'. JSONArray_loop ctx' (skip_ws s) = Some (vs', r4)"
      by (rule "4.IH" [OF items(1) items(2) le items(3)])
    with items show ?thesis by (subst JSONArray.simps) auto
  qed
next
  case (5 ctx s)
  note le = "5.prems"(1)
  from "5.prems"(2) show ?case
  proof (cases rule: JSONArray_loop_SomeE)
    case (last val s1)
    from "5.IH"(1) [OF le last(1)] last show ?thesis
      by (subst JSONArray_loop.simps) auto
  next
    case (more val s1 s2 vs')
    have "\<exists>vs''. JSONArray_loop ctx' (skip_ws s2) = Some (vs'', r5)"
      by (rule "5.IH"(2) [OF more(1) refl more(2) _ _ _ le more(4)]) (use more(3) in simp_all)
    with "5.IH"(1) [OF le more(1)] more show ?thesis
      by (subst JSONArray_loop.simps) auto
  qed
qed

subsection \<open>Valid JSON\<close>

text \<open>
  The specification calls a JSON document a value that conforms to the JSON grammar
  (object, array, string, number, boolean, null): RFC 8259. \<open>NaN\<close>, \<open>Infinity\<close> and
  \<open>-Infinity\<close> are not in that grammar, and they are the only texts the library accepts
  beyond it: a decoder whose \<open>parse_constant\<close> raises is a recogniser of the grammar. The
  float its \<open>parse_float\<close> returns plays no part in what it accepts.
\<close>

definition rfc8259_decoder :: JSONDecoder where
  "rfc8259_decoder = \<lparr>parse_float = (\<lambda>literal. NaN), parse_constant = (\<lambda>name. None)\<rparr>"

definition is_json :: "pystr \<Rightarrow> bool" where
  "is_json s \<longleftrightarrow> decode rfc8259_decoder s \<noteq> None"

definition is_json_object :: "pystr \<Rightarrow> bool" where
  "is_json_object s \<longleftrightarrow>
     (case decode rfc8259_decoder s of None \<Rightarrow> False | Some v \<Rightarrow> is_dict v)"

lemma accepts_more_default: "accepts_more rfc8259_decoder (default_decoder rt)"
  by (simp add: accepts_more_def rfc8259_decoder_def)

lemma decode_mono:
  "accepts_more ctx ctx' \<Longrightarrow> decode ctx s = Some v \<Longrightarrow>
   \<exists>v'. decode ctx' s = Some v' \<and> is_dict v' = is_dict v"
  by (auto simp: decode_def split: option.split_asm if_split_asm dest!: decoder_mono(1))

lemma scan_once_bom: "scan_once ctx (0xfeff # s) = None"
  by (simp add: scan_once_Cons scan_atom_def ascii_def match_number_def match_integer_def is_digit_def)

lemma decode_bom: "take 1 s = [0xfeff] \<Longrightarrow> decode ctx s = None"
  by (cases s) (simp_all add: decode_def skip_ws_def is_ws_def scan_once_bom scan_once_Nil)

lemma json_load_eq: "json_load rt s = (case decode (default_decoder rt) s of None \<Rightarrow> Inl JSONDecodeError | Some v \<Rightarrow> Inr v)"
  by (simp add: json_load_def json_loads_def decode_bom)





text \<open>\<open>int\<close> of a float keeps the sign and drops less than one unit.\<close>

lemma int_of_float_truncates:
  "\<bar>of_int (int_of_float x)\<bar> \<le> \<bar>x\<bar> \<and> \<bar>x\<bar> < \<bar>of_int (int_of_float x)\<bar> + (1::real)"
  unfolding int_of_float_def by (cases "0 \<le> x") (simp_all, linarith+)

subsection \<open>The decoder reads what the encoder writes\<close>

text \<open>
  An encoded string is a sequence of pieces between two quotes: a plain character, a
  two-character escape, or \<open>\u\<close> and four hexadecimal digits. The string scanner accepts
  every such sequence; after a high surrogate escape it may take the next piece with it.
\<close>

definition is_hex :: "nat \<Rightarrow> bool" where
  "is_hex c \<longleftrightarrow> hexval c \<noteq> None"

definition piece_ok :: "pystr \<Rightarrow> bool" where
  "piece_ok p \<longleftrightarrow>
     (\<exists>c. p = [c] \<and> 0x20 \<le> c \<and> c \<noteq> QUOTE \<and> c \<noteq> REVERSE_SOLIDUS) \<or>
     (\<exists>e. p = [REVERSE_SOLIDUS, e] \<and> e \<noteq> ch CHR ''u'' \<and> BACKSLASH e \<noteq> None) \<or>
     (\<exists>a b c d. p = [REVERSE_SOLIDUS, ch CHR ''u'', a, b, c, d] \<and> is_hex a \<and> is_hex b \<and> is_hex c \<and> is_hex d)"

lemma decode_uXXXX_hex:
  "is_hex a \<Longrightarrow> is_hex b \<Longrightarrow> is_hex c \<Longrightarrow> is_hex d \<Longrightarrow> \<exists>uni. decode_uXXXX [a, b, c, d] = Some uni"
  by (auto simp: is_hex_def)

lemma append_char_ex: "\<exists>str. r = Some (str, rest) \<Longrightarrow> \<exists>str. append_char c r = Some (str, rest)"
  by (auto simp: append_char_def)

lemma scanstring_pieces:
  "list_all piece_ok ps \<Longrightarrow> \<exists>str. scanstring (concat ps @ QUOTE # rest) = Some (str, rest)"
proof (induction ps rule: induct_list012)
  case 1
  show ?case by simp
next
  case (2 p)
  then show ?case
    by (auto simp: piece_ok_def is_hex_def intro!: append_char_ex)
next
  case (3 p q ps)
  from "3.prems" have p: "piece_ok p" and q: "piece_ok q" and ps: "list_all piece_ok ps"
    by simp_all
  from "3.IH"(1) ps obtain str1 where s1: "scanstring (concat ps @ QUOTE # rest) = Some (str1, rest)"
    by auto
  from "3.IH"(2) q ps obtain str2 where s2: "scanstring (concat (q # ps) @ QUOTE # rest) = Some (str2, rest)"
    by auto
  from p consider
      (plain) c where "p = [c]" "0x20 \<le> c" "c \<noteq> QUOTE" "c \<noteq> REVERSE_SOLIDUS"
    | (short) e where "p = [REVERSE_SOLIDUS, e]" "e \<noteq> ch CHR ''u''" "BACKSLASH e \<noteq> None"
    | (uni) a b c d where "p = [REVERSE_SOLIDUS, ch CHR ''u'', a, b, c, d]"
        "is_hex a" "is_hex b" "is_hex c" "is_hex d"
    by (auto simp: piece_ok_def)
  then show ?case
  proof cases
    case plain
    with s2 show ?thesis by (auto intro!: append_char_ex)
  next
    case short
    with s2 show ?thesis by (auto intro!: append_char_ex)
  next
    case uni
    from decode_uXXXX_hex [OF uni(2-5)] obtain u1 where u1: "decode_uXXXX [a, b, c, d] = Some u1"
      by auto
    from q consider
        (qplain) c' where "q = [c']" "0x20 \<le> c'" "c' \<noteq> QUOTE" "c' \<noteq> REVERSE_SOLIDUS"
      | (qshort) e where "q = [REVERSE_SOLIDUS, e]" "e \<noteq> ch CHR ''u''" "BACKSLASH e \<noteq> None"
      | (quni) a' b' c' d' where "q = [REVERSE_SOLIDUS, ch CHR ''u'', a', b', c', d']"
          "is_hex a'" "is_hex b'" "is_hex c'" "is_hex d'"
      by (auto simp: piece_ok_def)
    then show ?thesis
    proof cases
      case qplain
      with uni u1 s2 show ?thesis
        by (auto intro!: append_char_ex)
    next
      case qshort
      with uni u1 s2 show ?thesis
        by (auto intro!: append_char_ex)
    next
      case quni
      from decode_uXXXX_hex [OF quni(2-5)] obtain u2 where u2: "decode_uXXXX [a', b', c', d'] = Some u2"
        by auto
      from uni quni u1 u2 s1 s2 show ?thesis
        by (auto intro!: append_char_ex)
    qed
  qed
qed


lemma is_hex_hexdigit: "n < 16 \<Longrightarrow> is_hex (hexdigit n)"
  by (auto simp: is_hex_def hexval_def hexdigit_def)

lemma hex4_piece: "piece_ok ([REVERSE_SOLIDUS, ch CHR ''u''] @ hex4 n)"
  by (simp add: piece_ok_def hex4_def is_hex_hexdigit)

lemma escaped_pieces:
  "\<exists>ps. list_all piece_ok ps \<and> concat ps = (if ESCAPE_ASCII c then replace c else [c])"
proof (cases "ESCAPE_ASCII c")
  case False
  then have "piece_ok [c]"
    by (auto simp: ESCAPE_ASCII_def piece_ok_def)
  with False show ?thesis
    by (intro exI [of _ "[[c]]"]) simp
next
  case True
  consider (short) "c = REVERSE_SOLIDUS \<or> c = QUOTE \<or> c = 8 \<or> c = 12 \<or> c = 10 \<or> c = 13 \<or> c = 9"
    | (bmp) "\<not> (c = REVERSE_SOLIDUS \<or> c = QUOTE \<or> c = 8 \<or> c = 12 \<or> c = 10 \<or> c = 13 \<or> c = 9)" "c < 0x10000"
    | (astral) "\<not> (c = REVERSE_SOLIDUS \<or> c = QUOTE \<or> c = 8 \<or> c = 12 \<or> c = 10 \<or> c = 13 \<or> c = 9)" "\<not> c < 0x10000"
    by blast
  then show ?thesis
  proof cases
    case short
    then have "piece_ok (replace c)"
      by (auto simp: replace_def piece_ok_def BACKSLASH_def)
    with True show ?thesis
      by (intro exI [of _ "[replace c]"]) simp
  next
    case bmp
    then have "replace c = [REVERSE_SOLIDUS, ch CHR ''u''] @ hex4 c"
      by (simp add: replace_def)
    with True hex4_piece [of c] show ?thesis
      by (intro exI [of _ "[replace c]"]) simp
  next
    case astral
    then have "replace c =
        concat [[REVERSE_SOLIDUS, ch CHR ''u''] @ hex4 (0xd800 + (c - 0x10000) div 1024 mod 1024),
                [REVERSE_SOLIDUS, ch CHR ''u''] @ hex4 (0xdc00 + (c - 0x10000) mod 1024)]"
      by (simp add: replace_def)
    with True hex4_piece show ?thesis
      by (intro exI [of _ "[[REVERSE_SOLIDUS, ch CHR ''u''] @ hex4 (0xd800 + (c - 0x10000) div 1024 mod 1024),
                [REVERSE_SOLIDUS, ch CHR ''u''] @ hex4 (0xdc00 + (c - 0x10000) mod 1024)]"]) simp
  qed
qed

lemma escaped_string_pieces:
  "\<exists>ps. list_all piece_ok ps \<and>
        concat ps = concat (map (\<lambda>c. if ESCAPE_ASCII c then replace c else [c]) s)"
proof (induction s)
  case Nil
  show ?case by (intro exI [of _ "[]"]) simp
next
  case (Cons c s)
  then obtain ps where ps: "list_all piece_ok ps"
      "concat ps = concat (map (\<lambda>c. if ESCAPE_ASCII c then replace c else [c]) s)"
    by auto
  from escaped_pieces [of c] obtain qs where qs: "list_all piece_ok qs"
      "concat qs = (if ESCAPE_ASCII c then replace c else [c])"
    by auto
  from ps qs show ?case
    by (intro exI [of _ "qs @ ps"]) simp
qed

lemma scanstring_encode_basestring_ascii:
  "\<exists>str. scanstring (tl (encode_basestring_ascii s) @ rest) = Some (str, rest)"
proof -
  from escaped_string_pieces [of s] obtain ps where ps: "list_all piece_ok ps"
      "concat ps = concat (map (\<lambda>c. if ESCAPE_ASCII c then replace c else [c]) s)"
    by auto
  from scanstring_pieces [OF ps(1), of rest] ps(2) show ?thesis
    by (simp add: encode_basestring_ascii_def)
qed

text \<open>
  A number text followed by a comma, a closing bracket or the end of the text is scanned
  as that number: the scanner does not read on into what follows.
\<close>

definition delimited :: "pystr \<Rightarrow> bool" where
  "delimited rest \<longleftrightarrow>
     rest = [] \<or> hd rest = ch CHR '','' \<or> hd rest = ch CHR '']'' \<or> hd rest = ch CHR ''}''"

definition json_number :: "pystr \<Rightarrow> bool" where
  "json_number t \<longleftrightarrow>
     (case match_number t of None \<Rightarrow> False | Some (i, f, e, r) \<Rightarrow> r = [])"

lemma digits_append:
  assumes "delimited rest"
  shows "takeWhile is_digit (xs @ rest) = takeWhile is_digit xs"
    and "dropWhile is_digit (xs @ rest) = dropWhile is_digit xs @ rest"
proof -
  from assms have r: "takeWhile is_digit rest = []" "dropWhile is_digit rest = rest"
    by (cases rest; auto simp: delimited_def is_digit_def)+
  show "takeWhile is_digit (xs @ rest) = takeWhile is_digit xs"
    using r by (induction xs) simp_all
  show "dropWhile is_digit (xs @ rest) = dropWhile is_digit xs @ rest"
    using r by (induction xs) simp_all
qed

lemma match_integer_append:
  "match_integer t = Some (i, s1) \<Longrightarrow> delimited rest \<Longrightarrow> match_integer (t @ rest) = Some (i, s1 @ rest)"
  by (auto simp: match_integer_def digits_append split: list.split_asm if_split_asm)

lemma match_frac_append:
  "match_frac s = (f, s2) \<Longrightarrow> delimited rest \<Longrightarrow> match_frac (s @ rest) = (f, s2 @ rest)"
  by (cases s; cases rest)
     (auto simp: match_frac_def digits_append delimited_def split: if_split_asm)

lemma match_exp_append:
  assumes "match_exp s = (e, s2)" and d: "delimited rest"
  shows "match_exp (s @ rest) = (e, s2 @ rest)"
proof (cases s)
  case Nil
  with assms show ?thesis
    by (cases rest) (auto simp: match_exp_def delimited_def is_digit_def)
next
  case (Cons c r)
  show ?thesis
  proof (cases r)
    case Nil
    with Cons assms show ?thesis
      by (cases rest) (auto simp: match_exp_def delimited_def is_digit_def)
  next
    case (Cons x r')
    with \<open>s = c # r\<close> assms(1) show ?thesis
      by (auto simp: match_exp_def digits_append [OF d] split: if_split_asm)
  qed
qed

lemma match_number_append:
  assumes "match_number t = Some (i, f, e, r)" and d: "delimited rest"
  shows "match_number (t @ rest) = Some (i, f, e, r @ rest)"
proof -
  from assms(1) obtain s1 s2 where m: "match_integer t = Some (i, s1)" "match_frac s1 = (f, s2)"
      "match_exp s2 = (e, r)"
    by (auto simp: match_number_def split: option.split_asm prod.split_asm)
  from match_integer_append [OF m(1) d] match_frac_append [OF m(2) d] match_exp_append [OF m(3) d]
  show ?thesis
    by (simp add: match_number_def)
qed

lemma match_integer_head:
  "match_integer s = Some (i, r) \<Longrightarrow> \<exists>c s'. s = c # s' \<and> (c = ch CHR ''-'' \<or> is_digit c)"
  by (cases s) (auto simp: match_integer_def is_digit_def split: list.split_asm if_split_asm)

lemma scan_once_number:
  assumes "match_number s = Some (i, f, e, r)"
  shows "\<exists>v. scan_once ctx s = Some (v, r) \<and> \<not> is_dict v"
proof -
  from assms obtain s1 where "match_integer s = Some (i, s1)"
    by (auto simp: match_number_def split: option.split_asm prod.split_asm)
  from match_integer_head [OF this] obtain c s' where c: "s = c # s'" "c = ch CHR ''-'' \<or> is_digit c"
    by auto
  then have lit: "take 4 s \<noteq> ascii ''null''" "take 4 s \<noteq> ascii ''true''" "take 5 s \<noteq> ascii ''false''"
    by (auto simp: ascii_def is_digit_def)
  from c have "scan_once ctx s = scan_atom ctx s"
    by (auto simp: scan_once_Cons is_digit_def)
  with assms lit show ?thesis
    by (auto simp: scan_atom_def)
qed

lemma decimal_digits: "decimal n \<noteq> [] \<and> list_all is_digit (decimal n) \<and> (0 < n \<longrightarrow> hd (decimal n) \<noteq> ch CHR ''0'')"
proof (induction n rule: decimal.induct)
  case (1 n)
  show ?case
  proof (cases "n < 10")
    case True
    then show ?thesis
      by (subst (1 2 3) decimal.simps) (auto simp: is_digit_def)
  next
    case False
    with "1.IH" have ih: "decimal (n div 10) \<noteq> []" "list_all is_digit (decimal (n div 10))"
        "hd (decimal (n div 10)) \<noteq> ch CHR ''0''"
      by auto
    have "n mod 10 < 10" by simp
    then have "is_digit (ch CHR ''0'' + n mod 10)"
      unfolding is_digit_def by simp
    with False ih show ?thesis
      by (subst (1 2 3) decimal.simps) simp
  qed
qed

lemma match_integer_digits:
  assumes "is_digit d" and "list_all is_digit ds" and "d = ch CHR ''0'' \<longrightarrow> ds = []"
  shows "match_integer (d # ds) = Some (d # ds, [])"
    and "match_integer (ch CHR ''-'' # d # ds) = Some (ch CHR ''-'' # d # ds, [])"
proof -
  have tw: "takeWhile is_digit ds = ds" "dropWhile is_digit ds = []"
    using assms(2) by (simp_all add: list_all_iff)
  have "d \<noteq> ch CHR ''-''"
    using assms(1) by (auto simp: is_digit_def)
  with assms tw show "match_integer (d # ds) = Some (d # ds, [])"
    and "match_integer (ch CHR ''-'' # d # ds) = Some (ch CHR ''-'' # d # ds, [])"
    by (auto simp: match_integer_def)
qed

lemma json_number_intstr: "match_number (intstr i) = Some (intstr i, [], [], [])"
proof -
  have "match_integer (decimal n) = Some (decimal n, [])
      \<and> match_integer (ch CHR ''-'' # decimal n) = Some (ch CHR ''-'' # decimal n, [])" for n
  proof -
    from decimal_digits [of n] obtain d ds where dd: "decimal n = d # ds" "is_digit d"
        "list_all is_digit ds" "0 < n \<longrightarrow> d \<noteq> ch CHR ''0''"
      by (cases "decimal n") auto
    have "d = ch CHR ''0'' \<longrightarrow> ds = []"
    proof
      assume "d = ch CHR ''0''"
      with dd(4) have "n = 0" by auto
      with dd(1) show "ds = []" by (simp add: decimal.simps)
    qed
    from match_integer_digits [OF dd(2,3) this] dd(1) show ?thesis
      by simp
  qed
  from this [of "nat i"] this [of "nat (- i)"] show ?thesis
    by (simp add: intstr_def match_number_def match_frac_def match_exp_def)
qed

text \<open>
  \<open>printable rt v\<close>: every float in \<open>v\<close> is finite and \<open>float.__repr__\<close> prints it as a JSON
  number. (CPython's does, for every finite float; the model does not compute it.)
\<close>

fun printable :: "platform \<Rightarrow> pyval \<Rightarrow> bool"
  and printable_list :: "platform \<Rightarrow> pyval list \<Rightarrow> bool"
  and printable_dict :: "platform \<Rightarrow> (pystr \<times> pyval) list \<Rightarrow> bool"
where
  "printable rt (PFloat x) =
     (case x of Finite sg m e \<Rightarrow> json_number (py_float_repr rt x) | _ \<Rightarrow> False)"
| "printable rt (PList lst) = printable_list rt lst"
| "printable rt (PDict dct) = printable_dict rt dct"
| "printable rt PNone = True"
| "printable rt (PBool b) = True"
| "printable rt (PInt i) = True"
| "printable rt (PStr s) = True"
| "printable_list rt [] = True"
| "printable_list rt (v # lst) = (printable rt v \<and> printable_list rt lst)"
| "printable_dict rt [] = True"
| "printable_dict rt ((key, v) # items) = (printable rt v \<and> printable_dict rt items)"

lemma scan_once_head:
  assumes "scan_once ctx (c # s) = Some r"
  shows "\<not> is_ws c \<and> c \<noteq> ch CHR '']'' \<and> c \<noteq> ch CHR ''}''"
proof -
  have "scan_atom ctx (c # s) = None"
    if "is_ws c \<or> c = ch CHR '']'' \<or> c = ch CHR ''}''"
    using that
    by (auto simp: scan_atom_def ascii_def is_ws_def match_number_def match_integer_def is_digit_def)
  with assms show ?thesis
    by (auto simp: scan_once_Cons is_ws_def split: if_split_asm)
qed

lemma scan_once_skip_ws:
  assumes "scan_once ctx s = Some r"
  shows "skip_ws s = s" and "skip_ws (ch CHR '' '' # s) = s" and "s \<noteq> []" and "hd s \<noteq> ch CHR '']''"
proof -
  from assms obtain c s' where s: "s = c # s'"
    by (cases s) (simp_all add: scan_once_Nil)
  with assms scan_once_head [of ctx c s' r] show "skip_ws s = s" and "skip_ws (ch CHR '' '' # s) = s"
    and "s \<noteq> []" and "hd s \<noteq> ch CHR '']''"
    by (simp_all add: skip_ws_def is_ws_def)
qed

lemma iterencode_list_False:
  "iterencode_list rt False lst = (if lst = [] then [] else ascii '', '' @ iterencode_list rt True lst)"
  by (cases lst) simp_all

lemma iterencode_dict_False:
  "iterencode_dict rt False items = (if items = [] then [] else ascii '', '' @ iterencode_dict rt True items)"
  by (cases items) auto

lemma iterencode_dict_head:
  "items \<noteq> [] \<Longrightarrow> iterencode_dict rt True items = QUOTE # tl (iterencode_dict rt True items)"
  by (cases items) (auto simp: encode_basestring_ascii_def)

text \<open>The text of a printable value, followed by a delimiter, is scanned as one value, and
  that value is a dict when the encoded one is.\<close>

lemma encoder_output_scans:
  fixes ctx :: JSONDecoder
  shows "printable rt v \<Longrightarrow> delimited rest \<Longrightarrow>
          \<exists>v'. scan_once ctx (iterencode rt v @ rest) = Some (v', rest) \<and> is_dict v' = is_dict v"
    and "printable_list rt lst \<Longrightarrow> lst \<noteq> [] \<Longrightarrow>
          \<exists>vs. JSONArray_loop ctx (iterencode_list rt True lst @ ch CHR '']'' # rest1) = Some (vs, rest1)"
    and "printable_dict rt items \<Longrightarrow> items \<noteq> [] \<Longrightarrow>
          \<exists>ps. JSONObject_loop ctx (tl (iterencode_dict rt True items) @ ch CHR ''}'' # rest2) = Some (ps, rest2)"
proof (induction rt v and rt lst and rt items
       arbitrary: rest and rest1 and rest2
       rule: printable_printable_list_printable_dict.induct)
  case (7 rt s)
  from scanstring_encode_basestring_ascii [of s rest]
  show ?case
    by (auto simp: encode_basestring_ascii_def scan_once_Cons)
next
  case (4 rt)
  show ?case
    by (simp add: scan_once_Cons scan_atom_def ascii_def)
next
  case (5 rt b)
  show ?case
    by (simp add: scan_once_Cons scan_atom_def ascii_def)
next
  case (6 rt i)
  from match_number_append [OF json_number_intstr "6.prems"(2), of i]
  have "match_number (intstr i @ rest) = Some (intstr i, [], [], rest)"
    by simp
  from scan_once_number [OF this, of ctx] show ?case
    by auto
next
  case (1 rt x)
  from "1.prems"(1) obtain i f e where "match_number (floatstr rt x) = Some (i, f, e, [])"
    by (auto simp: floatstr_def json_number_def split: pyfloat.split_asm option.split_asm)
  from match_number_append [OF this "1.prems"(2)]
  have "match_number (floatstr rt x @ rest) = Some (i, f, e, rest)"
    by simp
  from scan_once_number [OF this, of ctx] show ?case
    by auto
next
  case (2 rt lst)
  show ?case
  proof (cases "lst = []")
    case True
    then show ?thesis
      by (simp add: ascii_def scan_once_Cons JSONArray.simps skip_ws_def is_ws_def)
  next
    case False
    with "2.IH" [of rest] "2.prems"(1) obtain vs
      where l: "JSONArray_loop ctx (iterencode_list rt True lst @ ch CHR '']'' # rest) = Some (vs, rest)"
      by auto
    then obtain r where "scan_once ctx (iterencode_list rt True lst @ ch CHR '']'' # rest) = Some r"
      by (cases rule: JSONArray_loop_SomeE) auto
    from scan_once_skip_ws [OF this] l show ?thesis
      by (cases "iterencode_list rt True lst @ ch CHR '']'' # rest")
         (auto simp: ascii_def scan_once_Cons JSONArray.simps)
  qed
next
  case (3 rt dct)
  show ?case
  proof (cases "dct = []")
    case True
    then show ?thesis
      by (simp add: ascii_def scan_once_Cons JSONObject.simps skip_ws_def is_ws_def)
  next
    case False
    with "3.IH" [of rest] "3.prems"(1) obtain ps
      where l: "JSONObject_loop ctx (tl (iterencode_dict rt True dct) @ ch CHR ''}'' # rest) = Some (ps, rest)"
      by auto
    have "skip_ws (iterencode_dict rt True dct @ ch CHR ''}'' # rest) =
          QUOTE # tl (iterencode_dict rt True dct) @ ch CHR ''}'' # rest"
      by (subst iterencode_dict_head [OF False]) (simp add: skip_ws_def is_ws_def)
    with l show ?thesis
      by (simp add: ascii_def scan_once_Cons JSONObject.simps)
  qed
next
  case (8 rt)
  then show ?case by simp
next
  case (9 rt v lst)
  let ?REST = "iterencode_list rt False lst @ ch CHR '']'' # rest1"
  have d: "delimited ?REST"
    by (simp add: iterencode_list_False ascii_def delimited_def)
  from "9.IH"(1) [OF _ d] "9.prems"(1) obtain v'
    where v': "scan_once ctx (iterencode rt v @ ?REST) = Some (v', ?REST)"
    by auto
  show ?case
  proof (cases "lst = []")
    case True
    with v' show ?thesis
      by (subst JSONArray_loop_unfold) (simp add: skip_ws_def is_ws_def)
  next
    case False
    with "9.IH"(2) [of rest1] "9.prems"(1) obtain vs
      where l: "JSONArray_loop ctx (iterencode_list rt True lst @ ch CHR '']'' # rest1) = Some (vs, rest1)"
      by auto
    then obtain r where "scan_once ctx (iterencode_list rt True lst @ ch CHR '']'' # rest1) = Some r"
      by (cases rule: JSONArray_loop_SomeE) auto
    from scan_once_skip_ws(2) [OF this] l v' False show ?thesis
      by (subst JSONArray_loop_unfold)
         (simp add: iterencode_list_False ascii_def, simp add: skip_ws_def is_ws_def)
  qed
next
  case (10 rt)
  then show ?case by simp
next
  case (11 rt key v items)
  let ?REST = "iterencode_dict rt False items @ 125 # rest2"
  have d: "delimited ?REST"
    by (simp add: iterencode_dict_False ascii_def delimited_def)
  from "11.IH"(1) [OF _ d] "11.prems"(1) obtain v'
    where v': "scan_once ctx (iterencode rt v @ ?REST) = Some (v', ?REST)"
    by auto
  from scanstring_encode_basestring_ascii [of key "ascii '': '' @ iterencode rt v @ ?REST"]
  obtain k' where k': "scanstring (tl (encode_basestring_ascii key) @ ascii '': '' @ iterencode rt v @ ?REST)
      = Some (k', ascii '': '' @ iterencode rt v @ ?REST)"
    by auto
  have tl_eq: "tl (iterencode_dict rt True ((key, v) # items)) @ ch CHR ''}'' # rest2 =
      tl (encode_basestring_ascii key) @ ascii '': '' @ iterencode rt v @ ?REST"
    by (simp add: encode_basestring_ascii_def)
  have colon: "skip_ws (ascii '': '' @ iterencode rt v @ ?REST) = ch CHR '':'' # ch CHR '' '' # iterencode rt v @ ?REST"
    by (simp add: ascii_def skip_ws_def is_ws_def)
  note sk = scan_once_skip_ws [OF v']
  show ?case
  proof (cases "items = []")
    case True
    with v' k' colon sk show ?thesis
      unfolding tl_eq
      by (subst JSONObject_loop_unfold) (simp, simp add: skip_ws_def is_ws_def)
  next
    case False
    with "11.IH"(2) [of rest2] "11.prems"(1) obtain ps
      where l: "JSONObject_loop ctx (tl (iterencode_dict rt True items) @ ch CHR ''}'' # rest2) = Some (ps, rest2)"
      by auto
    have rest_eq: "?REST = 44 # 32 # 34 # tl (iterencode_dict rt True items) @ 125 # rest2"
      using False iterencode_dict_head [OF False, of rt]
      by (simp add: iterencode_dict_False ascii_def)
    have sk2a: "skip_ws ?REST = ?REST"
      unfolding rest_eq by (simp add: skip_ws_def is_ws_def)
    have sk2b: "skip_ws (32 # 34 # tl (iterencode_dict rt True items) @ 125 # rest2) =
        34 # tl (iterencode_dict rt True items) @ 125 # rest2"
      by (simp add: skip_ws_def is_ws_def)
    from v' k' colon sk l show ?thesis
      unfolding tl_eq
      apply (subst JSONObject_loop_unfold)
      apply (simp add: sk2a)
      apply (simp add: rest_eq sk2b)
      done
  qed
qed

lemma printable_dict_setitem:
  "printable_dict rt d \<Longrightarrow> printable rt v \<Longrightarrow> printable_dict rt (dict_setitem d k v)"
  by (induction d k v rule: dict_setitem.induct) simp_all

lemma printable_stamped: "printable_dict rt X \<Longrightarrow> printable_dict rt (stamped X t)"
  by (simp add: stamped_def printable_dict_setitem)

lemma decode_iterencode:
  assumes "printable rt v"
  shows "\<exists>v'. decode ctx (iterencode rt v) = Some v' \<and> is_dict v' = is_dict v"
proof -
  from encoder_output_scans(1) [OF assms, of "[]" ctx] obtain v'
    where v': "scan_once ctx (iterencode rt v) = Some (v', [])" "is_dict v' = is_dict v"
    by (auto simp: delimited_def)
  from scan_once_skip_ws(1) [OF v'(1)] v' show ?thesis
    by (simp add: decode_def skip_ws_def)
qed

lemma is_json_object_iterencode:
  "printable_dict rt Y \<Longrightarrow> is_json_object (iterencode rt (PDict Y))"
  using decode_iterencode [of rt "PDict Y" rfc8259_decoder]
  by (auto simp: is_json_object_def)

subsection \<open>The limits of the interpreter\<close>































subsection \<open>Running the model on a given text\<close>

text \<open>
  A text with no fraction and no exponent in it never reaches the float primitives, so a
  run on such a text is the same on every platform. \<open>demo_platform\<close> is one platform, for
  the runs below; \<open>fixed_clock t\<close> is a clock that reads \<open>t\<close>.
\<close>

definition demo_platform :: platform where
  "demo_platform = \<lparr>py_float = (\<lambda>s. NaN), py_float_repr = (\<lambda>x. [])\<rparr>"

definition fixed_clock :: "real \<Rightarrow> nat \<Rightarrow> real" where
  "fixed_clock t n = t"

text \<open>Rules that evaluate the decoder and the encoder on a given text.\<close>

lemma decimal_numeral:
  "decimal (numeral k) =
     (if (numeral k :: nat) < 10 then [ch CHR ''0'' + numeral k]
      else decimal (numeral k div 10) @ [ch CHR ''0'' + numeral k mod 10])"
  by (rule decimal.simps)

lemma decimal_0: "decimal 0 = [ch CHR ''0'']"
  by (simp add: decimal.simps)

lemma decimal_1: "decimal 1 = [ch CHR ''1'']" "decimal (Suc 0) = [ch CHR ''1'']"
  by (simp_all add: decimal.simps)

lemmas decoder_eval =
  json_load_eq decode_def default_decoder_def rfc8259_decoder_def CONSTANTS_def ascii_def
  skip_ws_def is_ws_def append_char_def scan_once_Nil scan_once_Cons scan_atom_def
  JSONObject.simps JSONObject_loop_unfold JSONArray.simps JSONArray_loop_unfold
  match_number_def match_integer_def match_frac_def match_exp_def is_digit_def
  parse_int_def digits_value_def dict_def

lemmas encoder_eval =
  encode_basestring_ascii_def ESCAPE_ASCII_def intstr_def floatstr_def ascii_def
  decimal_numeral decimal_0 decimal_1 stamped_def int_of_float_def fixed_clock_def


section \<open>The claims\<close>







text \<open>
  C4. For every input text the decoder rejects, \<open>JSONDecodeError\<close> leaves \<open>main\<close> uncaught,
  the process ends with status 1, and standard output stays empty; every such text is not
  valid JSON. (The claim as written, for every text that is not valid JSON, fails: see the
  counterexample below.)
\<close>

theorem C4_rejected_text_fails:
  assumes "decode (default_decoder rt) input = None"
  shows "\<not> is_json input
       \<and> run rt (start input c) =
           \<lparr>exit_status = 1, uncaught = Some JSONDecodeError, final = start input c\<rparr>"
proof
  show "\<not> is_json input"
  proof
    assume "is_json input"
    then obtain v where "decode rfc8259_decoder input = Some v"
      by (auto simp: is_json_def)
    from decode_mono [OF accepts_more_default this, of rt] assms show False
      by simp
  qed
  from assms have "json_load rt input = Inl JSONDecodeError"
    by (simp add: json_load_eq)
  from run_load_error [of rt "start input c", simplified start_def process.simps, OF this]
  show "run rt (start input c) =
           \<lparr>exit_status = 1, uncaught = Some JSONDecodeError, final = start input c\<rparr>"
    by (simp add: start_def)
qed

theorem C4_rejected_text_fails_witness:
  \<open>\<not> is_json (ascii ''not json'')
   \<and> run demo_platform (start (ascii ''not json'') (fixed_clock 1700000000)) =
       \<lparr>exit_status = 1, uncaught = Some JSONDecodeError,
        final = start (ascii ''not json'') (fixed_clock 1700000000)\<rparr>\<close>
proof -
  have h: "decode (default_decoder demo_platform) (ascii ''not json'') = None"
    by (simp add: decoder_eval)
  from C4_rejected_text_fails [OF h, of "fixed_clock 1700000000"]
  show ?thesis by simp
qed

text \<open>
  C4 as written fails on the text \<open>{"x": NaN}\<close>: it is not valid JSON, yet the decoder
  reads \<open>NaN\<close>, \<open>Infinity\<close> and \<open>-Infinity\<close> as floats, so the run ends with status 0 and
  writes the object back.
\<close>

theorem C4_not_json_but_accepted:
  \<open>\<not> is_json (ascii ''{"x": NaN}'')
   \<and> run demo_platform (start (ascii ''{"x": NaN}'') (fixed_clock 1700000000)) =
       \<lparr>exit_status = 0, uncaught = None,
        final = \<lparr>stdin = ascii ''{"x": NaN}'',
                 stdout = ascii ''{"x": NaN, "echoed_by": "python", "ts": 1700000000}'',
                 clock = fixed_clock 1700000000, clock_reads = 1\<rparr>\<rparr>\<close>
proof
  show \<open>\<not> is_json (ascii ''{"x": NaN}'')\<close>
    by (simp add: is_json_def decoder_eval)
  have \<open>json_load demo_platform (ascii ''{"x": NaN}'') = Inr (PDict [(ascii ''x'', PFloat NaN)])\<close>
    by (simp add: decoder_eval)
  from run_dict [of demo_platform "start (ascii ''{\"x\": NaN}'') (fixed_clock 1700000000)", simplified start_def process.simps, OF this]
  show \<open>run demo_platform (start (ascii ''{"x": NaN}'') (fixed_clock 1700000000)) =
       \<lparr>exit_status = 0, uncaught = None,
        final = \<lparr>stdin = ascii ''{"x": NaN}'',
                 stdout = ascii ''{"x": NaN, "echoed_by": "python", "ts": 1700000000}'',
                 clock = fixed_clock 1700000000, clock_reads = 1\<rparr>\<rparr>\<close>
    by (simp add: start_def) (simp add: encoder_eval)
qed

text \<open>
  C5. For every input that parses to a value that is not an object, the first assignment
  raises \<open>TypeError\<close>, nothing catches it, and the process ends with status 1, having
  written nothing and not read the clock.
\<close>

theorem C5_not_an_object_type_error:
  assumes "json_load rt input = Inr v" and "\<not> is_dict v"
  shows "run rt (start input c) =
           \<lparr>exit_status = 1, uncaught = Some TypeError, final = start input c\<rparr>"
  using run_not_dict [of rt "start input c" v] assms by (simp add: start_def)

theorem C5_not_an_object_type_error_witness:
  \<open>run demo_platform (start (ascii ''[1,2,3]'') (fixed_clock 1700000000)) =
     \<lparr>exit_status = 1, uncaught = Some TypeError,
      final = start (ascii ''[1,2,3]'') (fixed_clock 1700000000)\<rparr>
   \<and> run demo_platform (start (ascii ''"hello"'') (fixed_clock 1700000000)) =
     \<lparr>exit_status = 1, uncaught = Some TypeError,
      final = start (ascii ''"hello"'') (fixed_clock 1700000000)\<rparr>
   \<and> run demo_platform (start (ascii ''-17'') (fixed_clock 1700000000)) =
     \<lparr>exit_status = 1, uncaught = Some TypeError,
      final = start (ascii ''-17'') (fixed_clock 1700000000)\<rparr>\<close>
proof -
  have h1: "json_load demo_platform (ascii ''[1,2,3]'') = Inr (PList [PInt 1, PInt 2, PInt 3])"
    by (simp add: decoder_eval)
  have h2: \<open>json_load demo_platform (ascii ''"hello"'') = Inr (PStr (ascii ''hello''))\<close>
    by (simp add: decoder_eval)
  have h3: "json_load demo_platform (ascii ''-17'') = Inr (PInt (- 17))"
    by (simp add: decoder_eval)
  from C5_not_an_object_type_error [OF h1, of "fixed_clock 1700000000"]
    C5_not_an_object_type_error [OF h2, of "fixed_clock 1700000000"]
    C5_not_an_object_type_error [OF h3, of "fixed_clock 1700000000"]
  show ?thesis by simp
qed




text \<open>
  C7. On success the value under \<open>ts\<close> is the clock reading cut to an integer (rounded
  towards zero: the whole seconds since the epoch for a reading that is not negative), and
  the clock has been read exactly once.
\<close>

theorem C7_timestamp_truncated_clock_read_once:
  assumes "json_load rt input = Inr (PDict X)"
  shows "stdout (final (run rt (start input c))) = iterencode rt (PDict (stamped X (c 0)))
       \<and> map_of (stamped X (c 0)) (ascii ''ts'') = Some (PInt (int_of_float (c 0)))
       \<and> \<bar>of_int (int_of_float (c 0))\<bar> \<le> \<bar>c 0\<bar>
       \<and> \<bar>c 0\<bar> < \<bar>of_int (int_of_float (c 0))\<bar> + 1
       \<and> (0 \<le> c 0 \<longrightarrow> int_of_float (c 0) = \<lfloor>c 0\<rfloor>)
       \<and> clock_reads (final (run rt (start input c))) = 1"
  using run_dict [of rt "start input c" X] assms int_of_float_truncates [of "c 0"]
  by (simp add: start_def stamped_def map_of_dict_setitem int_of_float_def)

theorem C7_timestamp_truncated_clock_read_once_witness:
  \<open>stdout (final (run demo_platform (start (ascii ''{"n": 1}'') (fixed_clock 1700000000.75)))) =
     ascii ''{"n": 1, "echoed_by": "python", "ts": 1700000000}''
   \<and> clock_reads (final (run demo_platform (start (ascii ''{"n": 1}'') (fixed_clock 1700000000.75)))) = 1\<close>
proof -
  have h: \<open>json_load demo_platform (ascii ''{"n": 1}'') = Inr (PDict [(ascii ''n'', PInt 1)])\<close>
    by (simp add: decoder_eval)
  from C7_timestamp_truncated_clock_read_once [OF h, of "fixed_clock 1700000000.75"]
  show ?thesis
    by (simp add: encoder_eval)
qed

text \<open>
  C8. Two successful runs on the same input, under two clocks, write objects with the same
  keys in the same order that agree on every pair but the one under \<open>ts\<close>, \<open>echoed_by\<close>
  included; when the two clocks read the same value the outputs are the same text.
\<close>

theorem C8_runs_differ_only_in_ts:
  assumes "json_load rt input = Inr (PDict X)"
  shows "stdout (final (run rt (start input c1))) = iterencode rt (PDict (stamped X (c1 0)))
       \<and> stdout (final (run rt (start input c2))) = iterencode rt (PDict (stamped X (c2 0)))
       \<and> map fst (stamped X (c1 0)) = map fst (stamped X (c2 0))
       \<and> filter (\<lambda>kv. fst kv \<noteq> ascii ''ts'') (stamped X (c1 0)) =
         filter (\<lambda>kv. fst kv \<noteq> ascii ''ts'') (stamped X (c2 0))
       \<and> map_of (stamped X (c1 0)) (ascii ''echoed_by'') = Some (PStr (ascii ''python''))
       \<and> map_of (stamped X (c2 0)) (ascii ''echoed_by'') = Some (PStr (ascii ''python''))
       \<and> (c1 0 = c2 0 \<longrightarrow>
            stdout (final (run rt (start input c1))) = stdout (final (run rt (start input c2))))"
proof -
  have ne: "ascii ''echoed_by'' \<noteq> ascii ''ts''"
    by (simp add: ascii_def)
  have f: "filter (\<lambda>kv. fst kv \<noteq> ascii ''ts'') (stamped X t) =
           filter (\<lambda>kv. fst kv \<noteq> ascii ''ts'')
             (dict_setitem X (ascii ''echoed_by'') (PStr (ascii ''python'')))" for t
    unfolding stamped_def
    by (simp add: filter_dict_setitem [where P = "\<lambda>k. k \<noteq> ascii ''ts''"])
  have k: "map fst (stamped X t) = map fst (stamped X t')" for t t'
    unfolding stamped_def by (simp add: map_fst_dict_setitem)
  have e: "map_of (stamped X t) (ascii ''echoed_by'') = Some (PStr (ascii ''python''))" for t
    unfolding stamped_def using ne by (simp add: map_of_dict_setitem)
  from run_dict [of rt "start input c1" X] run_dict [of rt "start input c2" X] assms
  have "stdout (final (run rt (start input c1))) = iterencode rt (PDict (stamped X (c1 0)))"
    and "stdout (final (run rt (start input c2))) = iterencode rt (PDict (stamped X (c2 0)))"
    by (simp_all add: start_def)
  with f [of "c1 0"] f [of "c2 0"] k [of "c1 0" "c2 0"] e show ?thesis
    by simp
qed

theorem C8_runs_differ_only_in_ts_witness:
  \<open>stdout (final (run demo_platform (start (ascii ''{"k": "v"}'') (fixed_clock 1700000000)))) =
     ascii ''{"k": "v", "echoed_by": "python", "ts": 1700000000}''
   \<and> stdout (final (run demo_platform (start (ascii ''{"k": "v"}'') (fixed_clock 1700000060.5)))) =
     ascii ''{"k": "v", "echoed_by": "python", "ts": 1700000060}''\<close>
proof -
  have h: \<open>json_load demo_platform (ascii ''{"k": "v"}'') = Inr (PDict [(ascii ''k'', PStr (ascii ''v''))])\<close>
    by (simp add: decoder_eval)
  from C8_runs_differ_only_in_ts [OF h, of "fixed_clock 1700000000" "fixed_clock 1700000060.5"]
  show ?thesis
    by (simp add: encoder_eval)
qed

text \<open>
  C9. On success standard output is exactly the text \<open>json.dump\<close> produces for the resulting
  object: it starts with \<open>{\<close> and ends with \<open>}\<close>, with nothing before it and no newline
  after it, and it is valid JSON text of an object whenever every float of the input
  object is finite and printed as a JSON number. (The claim as written, valid JSON on
  every successful run, fails: see the counterexample below.)
\<close>

theorem C9_stdout_is_the_serialization:
  assumes "json_load rt input = Inr (PDict X)"
  shows "stdout (final (run rt (start input c))) = iterencode rt (PDict (stamped X (c 0)))
       \<and> hd (stdout (final (run rt (start input c)))) = ch CHR ''{''
       \<and> last (stdout (final (run rt (start input c)))) = ch CHR ''}''
       \<and> (printable rt (PDict X) \<longrightarrow> is_json_object (stdout (final (run rt (start input c)))))"
proof -
  from run_dict [of rt "start input c" X] assms
  have out: "stdout (final (run rt (start input c))) = iterencode rt (PDict (stamped X (c 0)))"
    by (simp add: start_def)
  have "printable rt (PDict X) \<longrightarrow> is_json_object (iterencode rt (PDict (stamped X (c 0))))"
    using is_json_object_iterencode [OF printable_stamped, of rt X "c 0"] by simp
  with out show ?thesis
    by (simp add: ascii_def)
qed

theorem C9_stdout_is_the_serialization_witness:
  \<open>stdout (final (run demo_platform (start (ascii ''{"a": [1, "x/y"], "b": {}}'') (fixed_clock 1700000000)))) =
      ascii ''{"a": [1, "x/y"], "b": {}, "echoed_by": "python", "ts": 1700000000}''
   \<and> is_json_object
        (ascii ''{"a": [1, "x/y"], "b": {}, "echoed_by": "python", "ts": 1700000000}'')\<close>
proof -
  have h: \<open>json_load demo_platform (ascii ''{"a": [1, "x/y"], "b": {}}'') =
      Inr (PDict [(ascii ''a'', PList [PInt 1, PStr (ascii ''x/y'')]), (ascii ''b'', PDict [])])\<close>
    by (simp add: decoder_eval)
  have p: "printable demo_platform
      (PDict [(ascii ''a'', PList [PInt 1, PStr (ascii ''x/y'')]), (ascii ''b'', PDict [])])"
    by simp
  have e: \<open>iterencode demo_platform
      (PDict (stamped [(ascii ''a'', PList [PInt 1, PStr (ascii ''x/y'')]), (ascii ''b'', PDict [])]
         (fixed_clock 1700000000 0))) =
      ascii ''{"a": [1, "x/y"], "b": {}, "echoed_by": "python", "ts": 1700000000}''\<close>
    by (simp add: encoder_eval)
  note t = C9_stdout_is_the_serialization [OF h, of "fixed_clock 1700000000"]
  from t have s: \<open>stdout (final (run demo_platform
      (start (ascii ''{"a": [1, "x/y"], "b": {}}'') (fixed_clock 1700000000)))) =
      ascii ''{"a": [1, "x/y"], "b": {}, "echoed_by": "python", "ts": 1700000000}''\<close>
    by (simp only: e)
  from t p have \<open>is_json_object (stdout (final (run demo_platform
      (start (ascii ''{"a": [1, "x/y"], "b": {}}'') (fixed_clock 1700000000)))))\<close>
    by blast
  then have \<open>is_json_object
      (ascii ''{"a": [1, "x/y"], "b": {}, "echoed_by": "python", "ts": 1700000000}'')\<close>
    unfolding s .
  with s show ?thesis
    by simp
qed

text \<open>
  C9 as written fails on the input \<open>{"v": -Infinity}\<close>: the run succeeds and writes
  \<open>-Infinity\<close> back, so the output is not valid JSON.
\<close>

theorem C9_output_with_constant_not_json:
  \<open>run demo_platform (start (ascii ''{"v": -Infinity}'') (fixed_clock 1700000000)) =
       \<lparr>exit_status = 0, uncaught = None,
        final = \<lparr>stdin = ascii ''{"v": -Infinity}'',
                 stdout = ascii ''{"v": -Infinity, "echoed_by": "python", "ts": 1700000000}'',
                 clock = fixed_clock 1700000000, clock_reads = 1\<rparr>\<rparr>
   \<and> \<not> is_json (ascii ''{"v": -Infinity, "echoed_by": "python", "ts": 1700000000}'')\<close>
proof
  have \<open>json_load demo_platform (ascii ''{"v": -Infinity}'') = Inr (PDict [(ascii ''v'', PFloat NegInf)])\<close>
    by (simp add: decoder_eval)
  from run_dict [of demo_platform "start (ascii ''{\"v\": -Infinity}'') (fixed_clock 1700000000)", simplified start_def process.simps, OF this]
  show \<open>run demo_platform (start (ascii ''{"v": -Infinity}'') (fixed_clock 1700000000)) =
       \<lparr>exit_status = 0, uncaught = None,
        final = \<lparr>stdin = ascii ''{"v": -Infinity}'',
                 stdout = ascii ''{"v": -Infinity, "echoed_by": "python", "ts": 1700000000}'',
                 clock = fixed_clock 1700000000, clock_reads = 1\<rparr>\<rparr>\<close>
    by (simp add: start_def) (simp add: encoder_eval)
  show \<open>\<not> is_json (ascii ''{"v": -Infinity, "echoed_by": "python", "ts": 1700000000}'')\<close>
    by (simp add: is_json_def decoder_eval)
qed



end
